theory Spec2Isabelle
  imports Complex_Main "HOL-Library.Sublist" "HOL-Library.Log_Nat"
begin

section \<open>Python strings\<close>

text \<open>
  A Python \<open>str\<close> is the list of its code points. \<open>str\<close> turns a literal of
  this theory, whose characters have the codes 0 to 255, into one.
\<close>

type_synonym py_str = "nat list"

definition str :: "string \<Rightarrow> py_str" where
  "str s = map of_char s"

text \<open>
  The characters that \<open>str.isspace\<close> holds of, which are those that \<open>str.strip()\<close>
  removes: the ASCII white space and separators, NEL, the no-break space and the
  Unicode spaces and line separators.
\<close>

definition isspace :: "nat \<Rightarrow> bool" where
  "isspace c =
     ((9 \<le> c \<and> c \<le> 13) \<or> (28 \<le> c \<and> c \<le> 32) \<or> c = 0x85 \<or> c = 0xA0 \<or> c = 0x1680 \<or>
      (0x2000 \<le> c \<and> c \<le> 0x200A) \<or> c = 0x2028 \<or> c = 0x2029 \<or> c = 0x202F \<or>
      c = 0x205F \<or> c = 0x3000)"

definition strip :: "py_str \<Rightarrow> py_str" where
  "strip s = rev (dropWhile isspace (rev (dropWhile isspace s)))"

text \<open>\<open>s.split(sep)\<close> for a one-character separator: never the empty list.\<close>

fun split_on :: "nat \<Rightarrow> py_str \<Rightarrow> py_str list" where
  "split_on sep [] = [[]]"
| "split_on sep (c # cs) =
     (if c = sep then [] # split_on sep cs
      else (case split_on sep cs of w # ws \<Rightarrow> (c # w) # ws | [] \<Rightarrow> [[c]]))"

text \<open>\<open>sub in s\<close>: \<open>sub\<close> occurs in \<open>s\<close> as a contiguous run.\<close>

fun str_in :: "py_str \<Rightarrow> py_str \<Rightarrow> bool" where
  "str_in sub [] = (sub = [])"
| "str_in sub (c # cs) = (prefix sub (c # cs) \<or> str_in sub cs)"

text \<open>
  The tables of the Unicode character database that the interpreter brings along and
  the sources do not contain: what \<open>str.lower\<close> returns for a string with a character
  beyond ASCII, and which characters beyond ASCII the pattern \<open>\w\<close> matches. They
  are parameters of the model.
\<close>

record unicode_db =
  ud_lower :: "py_str \<Rightarrow> py_str"
  ud_word :: "nat \<Rightarrow> bool"

definition ascii_lower :: "nat \<Rightarrow> nat" where
  "ascii_lower c = (if 65 \<le> c \<and> c \<le> 90 then c + 32 else c)"

text \<open>\<open>s.lower()\<close>: on ASCII text the letters A to Z become a to z.\<close>

definition lower :: "unicode_db \<Rightarrow> py_str \<Rightarrow> py_str" where
  "lower u s = (if list_all (\<lambda>c. c < 128) s then map ascii_lower s else ud_lower u s)"

section \<open>The catalog and the reconciler's match\<close>

text \<open>
  The \<open>Product\<close> model class is not among the sources; its columns are the ones the
  sources read and write. \<open>keywords\<close> holds one string, the keywords separated by
  commas.
\<close>

record product =
  p_id :: nat
  p_name :: py_str
  p_category :: py_str
  p_keywords :: py_str
  p_is_active :: bool

text \<open>
  \<open>DataProcessor._find_matching_product\<close>, the inner loop over the keywords of one
  product: true when the loop reaches its \<open>return product\<close>.
\<close>

fun any_keyword_in :: "unicode_db \<Rightarrow> py_str list \<Rightarrow> py_str \<Rightarrow> bool" where
  "any_keyword_in u [] scraped_name = False"
| "any_keyword_in u (keyword # keywords) scraped_name =
     (if str_in (strip keyword) (lower u scraped_name) then True
      else any_keyword_in u keywords scraped_name)"

text \<open>
  The outer loop over \<open>db.query(Product).all()\<close>, in the order the query returns.
  The comma has the code 44.
\<close>

fun find_matching_product :: "unicode_db \<Rightarrow> product list \<Rightarrow> py_str \<Rightarrow> product option" where
  "find_matching_product u [] scraped_name = None"
| "find_matching_product u (p # ps) scraped_name =
     (if any_keyword_in u (split_on 44 (lower u (p_keywords p))) scraped_name then Some p
      else find_matching_product u ps scraped_name)"

text \<open>
  The specification's words. \<open>k\<close> is \<open>seg\<close> without the white space at its two
  ends: \<open>seg\<close> is \<open>k\<close> between two runs of white space, and \<open>k\<close> neither starts nor
  ends with white space.
\<close>

definition stripped :: "py_str \<Rightarrow> py_str \<Rightarrow> bool" where
  "stripped seg k =
     ((\<exists>l r. seg = l @ k @ r \<and> list_all isspace l \<and> list_all isspace r) \<and>
      (k = [] \<or> (\<not> isspace (hd k) \<and> \<not> isspace (last k))))"

text \<open>
  An entry is hit when one of its keywords (a segment between the commas of its
  keywords, lowered, without the white space around it) is a substring of the lowered
  name.
\<close>

definition keyword_hit :: "unicode_db \<Rightarrow> py_str \<Rightarrow> product \<Rightarrow> bool" where
  "keyword_hit u scraped_name p =
     (\<exists>seg \<in> set (split_on 44 (lower u (p_keywords p))).
        \<exists>k. stripped seg k \<and> sublist k (lower u scraped_name))"

text \<open>
  The keywords string has a segment that is empty once the white space around it is
  removed.
\<close>

definition has_blank_keyword :: "py_str \<Rightarrow> bool" where
  "has_blank_keyword keywords = (\<exists>seg \<in> set (split_on 44 keywords). stripped seg [])"

text \<open>
  A property of \<open>str.lower\<close>: it turns no character into a comma or into white space
  and leaves commas and white space as they are, so a string with a blank segment has
  one after lowering. The model needs it of the table only, for strings beyond ASCII.
\<close>

definition keeps_blank_keywords :: "unicode_db \<Rightarrow> bool" where
  "keeps_blank_keywords u =
     (\<forall>s. has_blank_keyword s \<longrightarrow> has_blank_keyword (ud_lower u s))"

section \<open>The category classifier\<close>

text \<open>
  \<open>\w\<close>: the ASCII letters, digits and the underscore; beyond ASCII what the table
  says.
\<close>

definition is_word_char :: "unicode_db \<Rightarrow> nat \<Rightarrow> bool" where
  "is_word_char u c =
     (if c < 128
      then (48 \<le> c \<and> c \<le> 57) \<or> (65 \<le> c \<and> c \<le> 90) \<or> c = 95 \<or> (97 \<le> c \<and> c \<le> 122)
      else ud_word u c)"

text \<open>
  \<open>\b\<close> at position \<open>i\<close>: a word character on exactly one side, the two ends of the
  text counting as non-word.
\<close>

definition word_boundary :: "unicode_db \<Rightarrow> py_str \<Rightarrow> nat \<Rightarrow> bool" where
  "word_boundary u text i =
     ((0 < i \<and> i \<le> length text \<and> is_word_char u (text ! (i - 1))) \<noteq>
      (i < length text \<and> is_word_char u (text ! i)))"

text \<open>
  \<open>re.search(r'\b' + re.escape(keyword) + r'\b', text)\<close>: the keyword occurs literally
  at some position, with a word boundary before and after it.
\<close>

definition re_search_word :: "unicode_db \<Rightarrow> py_str \<Rightarrow> py_str \<Rightarrow> bool" where
  "re_search_word u keyword text =
     (\<exists>i \<in> set [0 ..< Suc (length text)].
        i + length keyword \<le> length text \<and>
        take (length keyword) (drop i text) = keyword \<and>
        word_boundary u text i \<and> word_boundary u text (i + length keyword))"

text \<open>The two keyword lists of \<open>CategoryClassifier.__init__\<close>.\<close>

definition category_keywords_A :: "py_str list" where
  "category_keywords_A =
     [str ''cucumber'',
      [0x062E, 0x064A, 0x0627, 0x0631],
      str ''tomato'',
      [0x0637, 0x0645, 0x0627, 0x0637, 0x0645],
      str ''cherry tomato'',
      str ''capsicum'',
      str ''pepper'',
      [0x0641, 0x0644, 0x0641, 0x0644],
      str ''arugula'',
      [0x062C, 0x0631, 0x062C, 0x064A, 0x0631],
      str ''parsley'',
      [0x0628, 0x0642, 0x062F, 0x0648, 0x0646, 0x0633],
      str ''coriander'',
      [0x0643, 0x0632, 0x0628, 0x0631, 0x0629],
      str ''mint'',
      [0x0646, 0x0639, 0x0646, 0x0627, 0x0639],
      str ''kale'',
      str ''basil'',
      [0x0631, 0x064A, 0x062D, 0x0627, 0x0646]]"

definition category_keywords_B :: "py_str list" where
  "category_keywords_B =
     [str ''lettuce'',
      [0x062E, 0x0633],
      str ''chives'',
      [0x062B, 0x0648, 0x0645, 0x0020, 0x0645, 0x0639, 0x0645, 0x0631],
      str ''batavia'']"

text \<open>One \<open>for keyword in ...\<close> loop of \<open>classify\<close>: true when it reaches its return.\<close>

fun any_keyword_found :: "unicode_db \<Rightarrow> py_str list \<Rightarrow> py_str \<Rightarrow> bool" where
  "any_keyword_found u [] text_to_search = False"
| "any_keyword_found u (keyword # keywords) text_to_search =
     (if re_search_word u keyword text_to_search then True
      else any_keyword_found u keywords text_to_search)"

text \<open>
  \<open>CategoryClassifier.classify\<close>, over the two lists that \<open>self.category_keywords\<close>
  holds under "A" and "B".
\<close>

definition classify_with :: "unicode_db \<Rightarrow> py_str list \<Rightarrow> py_str list \<Rightarrow> py_str \<Rightarrow> py_str" where
  "classify_with u keywords_A keywords_B product_name =
     (let text_to_search = lower u product_name
      in if any_keyword_found u keywords_B text_to_search then str ''B''
         else if any_keyword_found u keywords_A text_to_search then str ''A''
         else str ''A'')"

definition classify :: "unicode_db \<Rightarrow> py_str \<Rightarrow> py_str" where
  "classify u product_name =
     classify_with u category_keywords_A category_keywords_B product_name"

section \<open>Python floats\<close>

text \<open>
  A float is a double: the model holds its value as a rational. \<open>double x\<close> is the
  double nearest to \<open>x\<close>, a tie going to the even significand: 53 bits above the
  exponent of \<open>x\<close>, which is at least -1022. The results of the arithmetic round
  so. Values of magnitude 2 to the 1024 and more, which Python holds as \<open>inf\<close>, are
  outside the model.
\<close>

definition pow2 :: "int \<Rightarrow> rat" where
  "pow2 k = (if 0 \<le> k then 2 ^ nat k else 1 / 2 ^ nat (- k))"

text \<open>The exponent of a positive rational: \<open>pow2 (exponent x) \<le> x < pow2 (exponent x + 1)\<close>.\<close>

definition exponent :: "rat \<Rightarrow> int" where
  "exponent x =
     (case quotient_of x of
        (a, b) \<Rightarrow> (let d = bitlen a - bitlen b in if pow2 d \<le> x then d else d - 1))"

definition round_half_even :: "rat \<Rightarrow> int" where
  "round_half_even y =
     (let f = \<lfloor>y\<rfloor>; d = y - of_int f
      in if d < 1 / 2 then f else if 1 / 2 < d then f + 1 else if even f then f else f + 1)"

definition double :: "rat \<Rightarrow> rat" where
  "double x =
     (if x = 0 then 0
      else (let e = max (exponent \<bar>x\<bar>) (- 1022); q = pow2 (e - 52)
            in of_int (round_half_even (x / q)) * q))"

definition float_sub :: "rat \<Rightarrow> rat \<Rightarrow> rat" where
  "float_sub a b = double (a - b)"

definition float_div :: "rat \<Rightarrow> rat \<Rightarrow> rat" where
  "float_div a b = double (a / b)"

definition float_mul :: "rat \<Rightarrow> rat \<Rightarrow> rat" where
  "float_mul a b = double (a * b)"

text \<open>
  \<open>round(x, 2)\<close> of a float: the decimal with two places nearest to the value of
  \<open>x\<close>, a tie going to the even last digit, and then the double nearest to that
  decimal.
\<close>

definition py_round2 :: "rat \<Rightarrow> rat" where
  "py_round2 x = double (of_int (round_half_even (x * 100)) / 100)"

section \<open>The ledger\<close>

text \<open>
  Timestamps are microseconds since the epoch, the resolution of \<open>datetime\<close>. Prices
  are floats.

  \<open>ProductData\<close> (of \<open>base_scraper\<close>) and the model classes \<open>Price\<close>,
  \<open>PriceHistory\<close> and \<open>Store\<close> are not among the sources: the records hold the
  attributes the sources read and write. A column that a constructor call leaves out is
  \<open>None\<close>. The primary keys of \<open>Price\<close> and \<open>PriceHistory\<close> rows, which no source
  reads, are left out; a table is the list of its rows in insertion order.
\<close>

type_synonym datetime = int

definition timedelta_days :: "int \<Rightarrow> int" where
  "timedelta_days n = n * 86400000000"

record product_data =
  d_name :: py_str
  d_price :: rat
  d_price_per_kg :: "rat option"
  d_original_price :: "rat option"
  d_pack_size :: "rat option"
  d_pack_unit :: "py_str option"
  d_is_available :: bool
  d_is_organic :: bool
  d_is_discounted :: bool
  d_brand :: "py_str option"
  d_image_url :: "py_str option"
  d_product_url :: "py_str option"
  d_category :: "py_str option"
  d_scraped_at :: datetime

record price =
  pr_product_id :: nat
  pr_store_id :: nat
  pr_price :: rat
  pr_price_per_kg :: "rat option"
  pr_pack_size :: "rat option"
  pr_pack_unit :: "py_str option"
  pr_is_available :: bool
  pr_is_organic :: "bool option"
  pr_is_discounted :: "bool option"
  pr_original_price :: "rat option"
  pr_brand :: "py_str option"
  pr_image_url :: "py_str option"
  pr_product_url :: "py_str option"
  pr_scraped_at :: datetime

record price_history =
  h_product_id :: nat
  h_store_id :: nat
  h_price :: rat
  h_is_available :: bool
  h_recorded_at :: datetime

record store =
  s_id :: nat
  s_name :: py_str
  s_is_active :: bool
  s_status :: py_str
  s_last_scraped :: "datetime option"
  s_scraper_module :: "py_str option"

record database =
  db_stores :: "store list"
  db_products :: "product list"
  db_prices :: "price list"
  db_price_history :: "price_history list"

definition same_pair :: "nat \<Rightarrow> nat \<Rightarrow> price \<Rightarrow> bool" where
  "same_pair product_id store_id r = (pr_product_id r = product_id \<and> pr_store_id r = store_id)"

section \<open>The session\<close>

text \<open>
  \<open>app/database.py\<close>, which configures the sessions, is not among the sources.
  Whether a session flushes its pending rows before each query is the parameter
  \<open>autoflush\<close>. The state of a unit of work is the database as the queries of the
  session see it, and the new \<open>Price\<close> rows that no query sees yet.

  With \<open>autoflush\<close> a row that \<open>db.add\<close> has taken is flushed before the next query
  reads a table: the model puts it into the table at once. Without it the row waits
  for \<open>db.flush()\<close> or \<open>db.commit()\<close>.
\<close>

type_synonym unit_of_work = "database \<times> price list"

definition add_price :: "bool \<Rightarrow> price \<Rightarrow> unit_of_work \<Rightarrow> unit_of_work" where
  "add_price autoflush row w =
     (case w of
        (db, pending) \<Rightarrow>
          if autoflush then (db\<lparr>db_prices := db_prices db @ [row]\<rparr>, pending)
          else (db, pending @ [row]))"

text \<open>\<open>db.flush()\<close>, and the flush at the start of \<open>db.commit()\<close>.\<close>

definition flush :: "unit_of_work \<Rightarrow> database" where
  "flush w = (case w of (db, pending) \<Rightarrow> db\<lparr>db_prices := db_prices db @ pending\<rparr>)"

section \<open>DataProcessor.process_scraped_data\<close>

text \<open>An assignment to the attributes of the row that \<open>.first()\<close> returned.\<close>

fun update_first :: "('a \<Rightarrow> bool) \<Rightarrow> ('a \<Rightarrow> 'a) \<Rightarrow> 'a list \<Rightarrow> 'a list" where
  "update_first P f [] = []"
| "update_first P f (x # xs) = (if P x then f x # xs else x # update_first P f xs)"

text \<open>Lines 51 to 54: the update of the row found.\<close>

definition update_price :: "product_data \<Rightarrow> price \<Rightarrow> price" where
  "update_price scraped_product current_price =
     current_price\<lparr>pr_price := d_price scraped_product,
                   pr_is_available := d_is_available scraped_product,
                   pr_scraped_at := d_scraped_at scraped_product\<rparr>"

text \<open>Lines 58 to 65: the new row.\<close>

definition first_price :: "nat \<Rightarrow> nat \<Rightarrow> product_data \<Rightarrow> price" where
  "first_price product_id store_id scraped_product =
     \<lparr>pr_product_id = product_id, pr_store_id = store_id,
      pr_price = d_price scraped_product, pr_price_per_kg = None,
      pr_pack_size = None, pr_pack_unit = None,
      pr_is_available = d_is_available scraped_product,
      pr_is_organic = None, pr_is_discounted = None, pr_original_price = None,
      pr_brand = None, pr_image_url = None,
      pr_product_url = d_product_url scraped_product,
      pr_scraped_at = d_scraped_at scraped_product\<rparr>"

text \<open>
  Lines 68 to 75. The call gives \<open>PriceHistory\<close> no \<open>recorded_at\<close>: the row gets the
  value of the column's default, which the absent model class declares. The loop has
  it as the parameter \<open>recorded_at\<close>, a function: \<open>recorded_at n\<close> is the value the
  default gives the row that is inserted when the table holds \<open>n\<close> rows.
\<close>

definition history_entry :: "datetime \<Rightarrow> nat \<Rightarrow> nat \<Rightarrow> product_data \<Rightarrow> price_history" where
  "history_entry recorded_at product_id store_id scraped_product =
     \<lparr>h_product_id = product_id, h_store_id = store_id,
      h_price = d_price scraped_product,
      h_is_available = d_is_available scraped_product,
      h_recorded_at = recorded_at\<rparr>"

text \<open>
  The \<open>for scraped_product in scraped_products\<close> loop, lines 31 to 75. The query of
  lines 45 to 48 reads the table: it finds a row of the pair that an earlier item of
  the batch added only when the session autoflushes. No query reads the history table,
  whose new rows the model writes to it at once.
\<close>

fun process_loop ::
  "unicode_db \<Rightarrow> bool \<Rightarrow> (nat \<Rightarrow> datetime) \<Rightarrow> nat \<Rightarrow> product_data list \<Rightarrow> unit_of_work \<Rightarrow>
     unit_of_work" where
  "process_loop u autoflush recorded_at store_id [] w = w"
| "process_loop u autoflush recorded_at store_id (scraped_product # rest) w =
     (if d_name scraped_product = [] \<or> d_price scraped_product \<le> 0
      then process_loop u autoflush recorded_at store_id rest w
      else
        (case find_matching_product u (db_products (fst w)) (d_name scraped_product) of
           None \<Rightarrow> process_loop u autoflush recorded_at store_id rest w
         | Some db_product \<Rightarrow>
             (let db = (fst w)\<lparr>db_price_history :=
                         db_price_history (fst w) @
                         [history_entry (recorded_at (length (db_price_history (fst w))))
                            (p_id db_product) store_id scraped_product]\<rparr>
              in case List.find (same_pair (p_id db_product) store_id) (db_prices db) of
                   Some current_price \<Rightarrow>
                     process_loop u autoflush recorded_at store_id rest
                       (db\<lparr>db_prices :=
                             update_first (same_pair (p_id db_product) store_id)
                               (update_price scraped_product) (db_prices db)\<rparr>,
                        snd w)
                 | None \<Rightarrow>
                     process_loop u autoflush recorded_at store_id rest
                       (add_price autoflush
                          (first_price (p_id db_product) store_id scraped_product)
                          (db, snd w)))))"

text \<open>
  The whole function, called on a session without uncommitted changes. \<open>commit_ok\<close>
  says whether \<open>db.commit()\<close> succeeds; when it raises, \<open>db.rollback()\<close> undoes every
  write of the call. The function returns nothing: the result is the database after
  the call.
\<close>

definition process_scraped_data ::
  "unicode_db \<Rightarrow> bool \<Rightarrow> bool \<Rightarrow> (nat \<Rightarrow> datetime) \<Rightarrow> database \<Rightarrow> nat \<Rightarrow> product_data list \<Rightarrow>
     database" where
  "process_scraped_data u autoflush commit_ok recorded_at db store_id scraped_products =
     (if scraped_products = [] then db
      else
        (let w = process_loop u autoflush recorded_at store_id scraped_products (db, [])
         in if commit_ok then flush w else db))"

text \<open>The items that reach the ledger: those the loop does not skip.\<close>

definition accepted :: "unicode_db \<Rightarrow> database \<Rightarrow> product_data \<Rightarrow> bool" where
  "accepted u db scraped_product =
     (d_name scraped_product \<noteq> [] \<and> 0 < d_price scraped_product \<and>
      find_matching_product u (db_products db) (d_name scraped_product) \<noteq> None)"

text \<open>The product an accepted item is written under.\<close>

definition matched_id :: "unicode_db \<Rightarrow> database \<Rightarrow> product_data \<Rightarrow> nat" where
  "matched_id u db scraped_product =
     (case find_matching_product u (db_products db) (d_name scraped_product) of
        Some db_product \<Rightarrow> p_id db_product | None \<Rightarrow> 0)"

text \<open>
  The specification's upsert on the table of current prices: overwrite the row of the
  pair where it stands, or append a row.
\<close>

definition upsert_price :: "nat \<Rightarrow> nat \<Rightarrow> product_data \<Rightarrow> price list \<Rightarrow> price list" where
  "upsert_price product_id store_id scraped_product rows =
     (if \<exists>r \<in> set rows. same_pair product_id store_id r
      then update_first (same_pair product_id store_id) (update_price scraped_product) rows
      else rows @ [first_price product_id store_id scraped_product])"

text \<open>
  The specification's \<open>upsert(productId, storeId, scrapedItem)\<close>: the upsert of the
  row, and one history record appended in either case.
\<close>

definition upsert :: "(nat \<Rightarrow> datetime) \<Rightarrow> nat \<Rightarrow> nat \<Rightarrow> product_data \<Rightarrow> database \<Rightarrow> database" where
  "upsert recorded_at product_id store_id scraped_product db =
     db\<lparr>db_price_history :=
          db_price_history db @
          [history_entry (recorded_at (length (db_price_history db)))
             product_id store_id scraped_product],
        db_prices := upsert_price product_id store_id scraped_product (db_prices db)\<rparr>"

definition pair_history :: "nat \<Rightarrow> nat \<Rightarrow> price_history list \<Rightarrow> price_history list" where
  "pair_history product_id store_id hs =
     filter (\<lambda>h. h_product_id h = product_id \<and> h_store_id h = store_id) hs"

text \<open>
  The most recent record of a list: the greatest \<open>recorded_at\<close>, and among records
  of the same \<open>recorded_at\<close> the one appended last.
\<close>

fun latest :: "price_history list \<Rightarrow> price_history option" where
  "latest [] = None"
| "latest (h # hs) =
     (case latest hs of
        None \<Rightarrow> Some h
      | Some h' \<Rightarrow> if h_recorded_at h' < h_recorded_at h then Some h else Some h')"

definition pair_of :: "price \<Rightarrow> nat \<times> nat" where
  "pair_of r = (pr_product_id r, pr_store_id r)"

text \<open>
  The ledger invariant: at most one current-price row for a pair, and the row's price
  and availability are those of the most recent history record of the pair.
\<close>

definition agrees_with_history :: "price_history list \<Rightarrow> price \<Rightarrow> bool" where
  "agrees_with_history hs r =
     (case latest (pair_history (pr_product_id r) (pr_store_id r) hs) of
        None \<Rightarrow> False
      | Some h \<Rightarrow> h_price h = pr_price r \<and> h_is_available h = pr_is_available r)"

definition ledger_inv :: "database \<Rightarrow> bool" where
  "ledger_inv db =
     (distinct (map pair_of (db_prices db)) \<and>
      list_all (agrees_with_history (db_price_history db)) (db_prices db))"

text \<open>
  The invariant as the specification words it: the timestamp of the row, too, is that
  of the most recent history record of the pair.
\<close>

definition agrees_in_full :: "price_history list \<Rightarrow> price \<Rightarrow> bool" where
  "agrees_in_full hs r =
     (case latest (pair_history (pr_product_id r) (pr_store_id r) hs) of
        None \<Rightarrow> False
      | Some h \<Rightarrow> h_price h = pr_price r \<and> h_is_available h = pr_is_available r \<and>
                  h_recorded_at h = pr_scraped_at r)"

definition ledger_inv_in_full :: "database \<Rightarrow> bool" where
  "ledger_inv_in_full db =
     (distinct (map pair_of (db_prices db)) \<and>
      list_all (agrees_in_full (db_price_history db)) (db_prices db))"

text \<open>
  The clock that stamps the history records does not go back, and is not behind the
  records already there.
\<close>

definition clock_not_behind :: "(nat \<Rightarrow> datetime) \<Rightarrow> database \<Rightarrow> bool" where
  "clock_not_behind recorded_at db =
     ((\<forall>m n. m \<le> n \<longrightarrow> recorded_at m \<le> recorded_at n) \<and>
      list_all (\<lambda>h. h_recorded_at h \<le> recorded_at (length (db_price_history db)))
        (db_price_history db))"

section \<open>The price change\<close>

text \<open>
  \<open>.order_by(PriceHistory.recorded_at.desc()).first()\<close>: a row with the greatest
  \<open>recorded_at\<close>. Among rows with the same \<open>recorded_at\<close> the engine may return any
  of them; the model returns the one inserted first.
\<close>

fun most_recent :: "price_history list \<Rightarrow> price_history option" where
  "most_recent [] = None"
| "most_recent (h # hs) =
     (case most_recent hs of
        None \<Rightarrow> Some h
      | Some h' \<Rightarrow> if h_recorded_at h < h_recorded_at h' then Some h' else Some h)"

text \<open>The query of both price-change computations, with \<open>yesterday\<close> already computed.\<close>

definition previous_price_query :: "database \<Rightarrow> datetime \<Rightarrow> price \<Rightarrow> price_history option" where
  "previous_price_query db yesterday price =
     most_recent
       (filter (\<lambda>h. h_product_id h = pr_product_id price \<and>
                     h_store_id h = pr_store_id price \<and>
                     h_recorded_at h < yesterday)
          (db_price_history db))"

text \<open>
  \<open>PriceService._format_price_with_change\<close>: the \<open>price_change_percent\<close> entry of the
  dictionary it returns. \<open>utcnow\<close> is the reading of \<open>datetime.utcnow()\<close>.
\<close>

definition format_price_with_change :: "database \<Rightarrow> datetime \<Rightarrow> price \<Rightarrow> rat" where
  "format_price_with_change db utcnow price =
     (let yesterday = utcnow - timedelta_days 1;
          previous_price_obj = previous_price_query db yesterday price;
          price_change_percent =
            (case previous_price_obj of
               None \<Rightarrow> 0
             | Some prev \<Rightarrow>
                 if 0 < h_price prev
                 then (let price_change = float_sub (pr_price price) (h_price prev)
                       in float_mul (float_div price_change (h_price prev)) 100)
                 else 0)
      in py_round2 price_change_percent)"

text \<open>
  \<open>get_prices_test_no_auth\<close>, lines 120 to 137 of the prices API: the entries
  \<open>price_change\<close> and \<open>price_change_percent\<close> of one result.
\<close>

definition get_prices_test_no_auth_change :: "database \<Rightarrow> datetime \<Rightarrow> price \<Rightarrow> rat \<times> rat" where
  "get_prices_test_no_auth_change db utcnow price =
     (let yesterday = utcnow - timedelta_days 1;
          previous_price = previous_price_query db yesterday price
      in case previous_price of
           None \<Rightarrow> (0, 0)
         | Some prev \<Rightarrow>
             (let price_change = float_sub (pr_price price) (h_price prev)
              in (price_change,
                  if 0 < h_price prev
                  then float_mul (float_div price_change (h_price prev)) 100
                  else 0)))"

section \<open>ScraperManager: saving the results\<close>

text \<open>The id the engine gives a new product: one not in the table.\<close>

definition fresh_product_id :: "product list \<Rightarrow> nat" where
  "fresh_product_id ps = Suc (fold max (map p_id ps) 0)"

text \<open>Lines 210 to 215: the product that is created for a name not in the table.\<close>

definition created_product :: "unicode_db \<Rightarrow> product_data \<Rightarrow> product list \<Rightarrow> product" where
  "created_product u product_data ps =
     \<lparr>p_id = fresh_product_id ps,
      p_name = d_name product_data,
      p_category =
        (case d_category product_data of
           None \<Rightarrow> str ''uncategorized''
         | Some c \<Rightarrow> if c = [] then str ''uncategorized'' else c),
      p_keywords = lower u (d_name product_data),
      p_is_active = True\<rparr>"

text \<open>
  Lines 204 to 217: find the product of that exact name, or create it. \<open>db.flush()\<close>
  after the creation writes every pending row of the session to its table.
\<close>

definition find_or_create_product ::
  "unicode_db \<Rightarrow> product_data \<Rightarrow> unit_of_work \<Rightarrow> product \<times> unit_of_work" where
  "find_or_create_product u product_data w =
     (case List.find (\<lambda>p. p_name p = d_name product_data) (db_products (fst w)) of
        Some product \<Rightarrow> (product, w)
      | None \<Rightarrow>
          (let product = created_product u product_data (db_products (fst w))
           in (product, ((flush w)\<lparr>db_products := db_products (fst w) @ [product]\<rparr>, []))))"

text \<open>
  Lines 219 to 223: the bulk delete of the rows of the pair. It reads the table: a row
  that an earlier item added is there when the session autoflushes.
\<close>

definition delete_pair :: "nat \<Rightarrow> nat \<Rightarrow> unit_of_work \<Rightarrow> unit_of_work" where
  "delete_pair product_id store_id w =
     ((fst w)\<lparr>db_prices :=
                filter (\<lambda>r. \<not> same_pair product_id store_id r) (db_prices (fst w))\<rparr>,
      snd w)"

text \<open>\<open>float(x) if x else None\<close>: \<open>None\<close> and zero are both falsy.\<close>

definition float_or_none :: "rat option \<Rightarrow> rat option" where
  "float_or_none x = (case x of None \<Rightarrow> None | Some v \<Rightarrow> if v = 0 then None else Some v)"

text \<open>Lines 225 to 241: the new row.\<close>

definition new_price :: "nat \<Rightarrow> nat \<Rightarrow> product_data \<Rightarrow> price" where
  "new_price product_id store_id product_data =
     \<lparr>pr_product_id = product_id, pr_store_id = store_id,
      pr_price = (if d_price product_data = 0 then 0 else d_price product_data),
      pr_price_per_kg = float_or_none (d_price_per_kg product_data),
      pr_pack_size = d_pack_size product_data,
      pr_pack_unit = d_pack_unit product_data,
      pr_is_available = d_is_available product_data,
      pr_is_organic = Some (d_is_organic product_data),
      pr_is_discounted = Some (d_is_discounted product_data),
      pr_original_price = float_or_none (d_original_price product_data),
      pr_brand = d_brand product_data,
      pr_image_url = d_image_url product_data,
      pr_product_url = d_product_url product_data,
      pr_scraped_at = d_scraped_at product_data\<rparr>"

text \<open>
  The loop of \<open>_save_store_results\<close>, lines 202 to 248. The record of an item holds
  numbers; \<open>raises\<close> says of an item that one of its values is of a kind that
  \<open>float(...)\<close> rejects, so that building the row raises, at lines 229 to 236, after
  the product was found or created and the rows of the pair were deleted. The handler
  of the inner \<open>try\<close> logs and goes on to the next item.
\<close>

fun save_loop ::
  "unicode_db \<Rightarrow> bool \<Rightarrow> (product_data \<Rightarrow> bool) \<Rightarrow> store \<Rightarrow> product_data list \<Rightarrow>
     unit_of_work \<Rightarrow> nat \<Rightarrow> unit_of_work \<times> nat" where
  "save_loop u autoflush raises store [] w saved_count = (w, saved_count)"
| "save_loop u autoflush raises store (product_data # rest) w saved_count =
     (case find_or_create_product u product_data w of
        (product, w1) \<Rightarrow>
          (let w2 = delete_pair (p_id product) (s_id store) w1
           in if raises product_data
              then save_loop u autoflush raises store rest w2 saved_count
              else save_loop u autoflush raises store rest
                     (add_price autoflush (new_price (p_id product) (s_id store) product_data) w2)
                     (Suc saved_count)))"

text \<open>
  A session: the database as committed, and the unit of work on top of it.
  \<open>db.commit()\<close> flushes and makes the work the committed state; \<open>db.rollback()\<close>
  returns to the committed state.
\<close>

record session =
  se_committed :: database
  se_work :: unit_of_work

definition commit :: "unit_of_work \<Rightarrow> session" where
  "commit w = \<lparr>se_committed = flush w, se_work = (flush w, [])\<rparr>"

definition rollback :: "session \<Rightarrow> session" where
  "rollback se = \<lparr>se_committed = se_committed se, se_work = (se_committed se, [])\<rparr>"

definition clean :: "database \<Rightarrow> session" where
  "clean db = \<lparr>se_committed = db, se_work = (db, [])\<rparr>"

text \<open>
  \<open>ScraperManager._save_store_results\<close> on a session: the session after the call and
  the returned \<open>saved_count\<close>. When \<open>db.commit()\<close> raises, the outer handler rolls
  back and the function still returns \<open>saved_count\<close>.
\<close>

definition save_store_session ::
  "unicode_db \<Rightarrow> bool \<Rightarrow> (product_data \<Rightarrow> bool) \<Rightarrow> bool \<Rightarrow> product_data list \<Rightarrow> store \<Rightarrow>
     session \<Rightarrow> session \<times> nat" where
  "save_store_session u autoflush raises commit_ok products store se =
     (case save_loop u autoflush raises store products (se_work se) 0 of
        (w, saved_count) \<Rightarrow> (if commit_ok then commit w else rollback se, saved_count))"

text \<open>The call on a session without uncommitted changes: the database after it.\<close>

definition save_store_results ::
  "unicode_db \<Rightarrow> bool \<Rightarrow> (product_data \<Rightarrow> bool) \<Rightarrow> bool \<Rightarrow> product_data list \<Rightarrow> store \<Rightarrow>
     database \<Rightarrow> database \<times> nat" where
  "save_store_results u autoflush raises commit_ok products store db =
     (case save_store_session u autoflush raises commit_ok products store (clean db) of
        (se, saved_count) \<Rightarrow> (se_committed se, saved_count))"

section \<open>ScraperManager: the batch scrape\<close>

text \<open>
  What lies outside the code: the Unicode tables, the configuration of the session,
  the clock reading when a store's task finishes, which items raise while they are
  saved, and for which store (by name) the commit of its save succeeds.
\<close>

record environment =
  e_unicode :: unicode_db
  e_autoflush :: bool
  e_utcnow :: "store \<Rightarrow> datetime"
  e_item_raises :: "product_data \<Rightarrow> bool"
  e_commit_ok :: "py_str \<Rightarrow> bool"

datatype exn = Exception string

text \<open>
  A scraper class, as far as the manager sees it: what creating an instance and
  awaiting \<open>scrape()\<close> gives in the task of a store, an exception or the list of items.
\<close>

type_synonym scraper_class = "store \<Rightarrow> exn + product_data list"

text \<open>
  \<open>ScraperManager._scrape_store_safe\<close>: the store object after the call and the
  returned list. The sessions it opens and commits are new and hold nothing: the
  assignments to \<open>store.status\<close> and \<open>store.last_scraped\<close> change the object, which
  belongs to the session of the batch, and are written when that session commits.
\<close>

definition scrape_store_safe :: "scraper_class \<Rightarrow> datetime \<Rightarrow> store \<Rightarrow> store \<times> product_data list" where
  "scrape_store_safe scraper_class utcnow store =
     (let store1 = store\<lparr>s_status := str ''scraping''\<rparr>
      in case scraper_class store of
           Inr products \<Rightarrow>
             (store1\<lparr>s_status := str ''idle'', s_last_scraped := Some utcnow\<rparr>, products)
         | Inl e \<Rightarrow> (store1\<lparr>s_status := str ''offline''\<rparr>, []))"

text \<open>
  \<open>store.scraper_module and store.scraper_module in self.scrapers\<close>, and then
  \<open>self.scrapers[store.scraper_module]\<close>.
\<close>

definition scraper_for :: "(py_str \<rightharpoonup> scraper_class) \<Rightarrow> store \<Rightarrow> scraper_class option" where
  "scraper_for scrapers store =
     (case s_scraper_module store of
        None \<Rightarrow> None
      | Some m \<Rightarrow> if m = [] then None else scrapers m)"

text \<open>\<open>d[k] = v\<close> on a dictionary that keeps the order in which its keys came.\<close>

fun dict_set :: "'k \<Rightarrow> 'v \<Rightarrow> ('k \<times> 'v) list \<Rightarrow> ('k \<times> 'v) list" where
  "dict_set k v [] = [(k, v)]"
| "dict_set k v ((k', v') # kvs) =
     (if k' = k then (k, v) # kvs else (k', v') # dict_set k v kvs)"

text \<open>\<open>ScraperManager._save_all_results\<close>, on the session of the batch.\<close>

fun save_all_results ::
  "environment \<Rightarrow> (py_str \<times> product_data list) list \<Rightarrow> session \<Rightarrow> nat \<Rightarrow> session \<times> nat" where
  "save_all_results env [] se total_saved = (se, total_saved)"
| "save_all_results env ((store_name, products) # rest) se total_saved =
     (case List.find (\<lambda>s. s_name s = store_name) (db_stores (fst (se_work se))) of
        None \<Rightarrow> save_all_results env rest se total_saved
      | Some store \<Rightarrow>
          (case save_store_session (e_unicode env) (e_autoflush env) (e_item_raises env)
                  (e_commit_ok env store_name) products store se of
             (se', saved) \<Rightarrow> save_all_results env rest se' (total_saved + saved)))"

text \<open>
  The tasks of lines 62 to 72: for each active store with a scraper, its name and what
  its task returns. The tasks run concurrently; each reads and writes its own store
  object only, so the model runs them one after the other.
\<close>

definition create_tasks ::
  "(py_str \<rightharpoonup> scraper_class) \<Rightarrow> environment \<Rightarrow> store list \<Rightarrow>
     (py_str \<times> store \<times> product_data list) list" where
  "create_tasks scrapers env active_stores =
     List.map_filter
       (\<lambda>store. map_option
          (\<lambda>scraper_class. (s_name store, scrape_store_safe scraper_class (e_utcnow env store) store))
          (scraper_for scrapers store))
       active_stores"

text \<open>The store object after the tasks: changed by its task, if it had one.\<close>

definition store_after :: "(py_str \<rightharpoonup> scraper_class) \<Rightarrow> environment \<Rightarrow> store \<Rightarrow> store" where
  "store_after scrapers env store =
     (if s_is_active store
      then (case scraper_for scrapers store of
              None \<Rightarrow> store
            | Some scraper_class \<Rightarrow>
                fst (scrape_store_safe scraper_class (e_utcnow env store) store))
      else store)"

text \<open>
  Lines 77 to 86: \<open>gather(..., return_exceptions=True)\<close> gives, for each task, what it
  returned or the exception that left it.
\<close>

fun collect_results ::
  "(py_str \<times> (exn + product_data list)) list \<Rightarrow> (py_str \<times> product_data list) list \<Rightarrow>
     (py_str \<times> product_data list) list" where
  "collect_results [] all_results = all_results"
| "collect_results ((store_name, result) # rest) all_results =
     collect_results rest
       (dict_set store_name (case result of Inl e \<Rightarrow> [] | Inr r \<Rightarrow> r) all_results)"

text \<open>
  \<open>ScraperManager.scrape_all_stores\<close>: the returned dictionary, and the database
  after the call, when \<open>db.close()\<close> has dropped what the session did not commit. The
  changes of the store objects are uncommitted work of the session when the saving
  starts.
\<close>

definition scrape_all_stores ::
  "(py_str \<rightharpoonup> scraper_class) \<Rightarrow> environment \<Rightarrow> database \<Rightarrow>
     (py_str \<times> product_data list) list \<times> database" where
  "scrape_all_stores scrapers env db =
     (let active_stores = filter s_is_active (db_stores db)
      in if active_stores = [] then ([], db)
         else
           (let tasks = create_tasks scrapers env active_stores;
                results = map (\<lambda>(store_name, store', products). (store_name, Inr products)) tasks;
                all_results = collect_results results [];
                se = \<lparr>se_committed = db,
                      se_work = (db\<lparr>db_stores := map (store_after scrapers env) (db_stores db)\<rparr>, [])\<rparr>;
                saved = save_all_results env all_results se 0
            in (all_results, se_committed (fst saved))))"

text \<open>
  The stores a batch attempts (active, with a scraper), and what the scraper of a store
  does in the batch.
\<close>

definition attempted :: "(py_str \<rightharpoonup> scraper_class) \<Rightarrow> database \<Rightarrow> store list" where
  "attempted scrapers db =
     filter
       (\<lambda>store. s_is_active store \<and>
          (case scraper_for scrapers store of None \<Rightarrow> False | Some scraper_class \<Rightarrow> True))
       (db_stores db)"

definition adapter_outcome ::
  "(py_str \<rightharpoonup> scraper_class) \<Rightarrow> store \<Rightarrow> (exn + product_data list) option" where
  "adapter_outcome scrapers store =
     map_option (\<lambda>scraper_class. scraper_class store) (scraper_for scrapers store)"

section \<open>Example data\<close>

text \<open>
  Tables for the examples, right for texts whose characters beyond ASCII are the Arabic
  letters U+0621 to U+064A, white space or punctuation: \<open>str.lower\<close> changes the
  ASCII letters of such a text only, and of its characters beyond ASCII the Arabic
  letters are word characters.
\<close>

definition arabic :: unicode_db where
  "arabic = \<lparr>ud_lower = map ascii_lower, ud_word = (\<lambda>c. 0x0621 \<le> c \<and> c \<le> 0x064A)\<rparr>"

text \<open>
  The scenario of the specification: a catalog with the product "Cucumbers" under the
  keyword "cucumber", and a store that returns "Organic Cucumber" at 12.50 and
  "Unknown Widget" at 9.99.
\<close>

definition scraped_item :: "string \<Rightarrow> rat \<Rightarrow> datetime \<Rightarrow> product_data" where
  "scraped_item name price scraped_at =
     \<lparr>d_name = str name, d_price = price, d_price_per_kg = None, d_original_price = None,
      d_pack_size = None, d_pack_unit = None, d_is_available = True, d_is_organic = False,
      d_is_discounted = False, d_brand = None, d_image_url = None, d_product_url = None,
      d_category = None, d_scraped_at = scraped_at\<rparr>"

definition cucumbers :: product where
  "cucumbers =
     \<lparr>p_id = 10, p_name = str ''Cucumbers'', p_category = str ''A'',
      p_keywords = str ''cucumber'', p_is_active = True\<rparr>"

definition tomatoes :: product where
  "tomatoes =
     \<lparr>p_id = 20, p_name = str ''Tomatoes'', p_category = str ''A'',
      p_keywords = str ''tomatoes, Tomato'', p_is_active = True\<rparr>"

text \<open>A product whose keywords end in a comma and a no-break space.\<close>

definition lettuce :: product where
  "lettuce =
     \<lparr>p_id = 30, p_name = str ''Lettuce'', p_category = str ''B'',
      p_keywords = str ''lettuce,'' @ [0xA0], p_is_active = True\<rparr>"

definition catalog_db :: database where
  "catalog_db =
     \<lparr>db_stores = [], db_products = [cucumbers, tomatoes], db_prices = [],
      db_price_history = []\<rparr>"

definition store_S :: store where
  "store_S =
     \<lparr>s_id = 7, s_name = str ''S'', s_is_active = True, s_status = str ''idle'',
      s_last_scraped = None, s_scraper_module = Some (str ''gourmet_scraper'')\<rparr>"

definition store_T :: store where
  "store_T =
     \<lparr>s_id = 8, s_name = str ''T'', s_is_active = True, s_status = str ''idle'',
      s_last_scraped = None, s_scraper_module = Some (str ''metro_scraper'')\<rparr>"

text \<open>A second store of the name "S", with the scraper of T.\<close>

definition store_S2 :: store where
  "store_S2 =
     \<lparr>s_id = 9, s_name = str ''S'', s_is_active = True, s_status = str ''idle'',
      s_last_scraped = None, s_scraper_module = Some (str ''metro_scraper'')\<rparr>"

text \<open>
  A ledger whose history holds one record for "Cucumbers" at store 7, with the price
  \<open>previous\<close>, recorded 36 hours before the time 200000000000, and the row of the
  pair with the price \<open>current\<close>.
\<close>

definition history_db :: "rat \<Rightarrow> database" where
  "history_db previous =
     \<lparr>db_stores = [store_S], db_products = [cucumbers, tomatoes], db_prices = [],
      db_price_history =
        [\<lparr>h_product_id = 10, h_store_id = 7, h_price = previous, h_is_available = True,
          h_recorded_at = 200000000000 - 36 * 3600000000\<rparr>]\<rparr>"

definition current_row :: "rat \<Rightarrow> price" where
  "current_row current = new_price 10 7 (scraped_item ''Organic Cucumber'' current 200000000000)"

text \<open>A column default that gives every history record the same time.\<close>

definition stamp :: "datetime \<Rightarrow> nat \<Rightarrow> datetime" where
  "stamp t n = t"

text \<open>
  Environments in which the clock reads 5000 and no item raises: in \<open>calm\<close> every
  commit succeeds, in \<open>failing\<close> none does.
\<close>

definition calm :: environment where
  "calm =
     \<lparr>e_unicode = arabic, e_autoflush = True, e_utcnow = (\<lambda>store. 5000),
      e_item_raises = (\<lambda>item. False), e_commit_ok = (\<lambda>store_name. True)\<rparr>"

definition failing :: environment where
  "failing =
     \<lparr>e_unicode = arabic, e_autoflush = True, e_utcnow = (\<lambda>store. 5000),
      e_item_raises = (\<lambda>item. False), e_commit_ok = (\<lambda>store_name. False)\<rparr>"

text \<open>
  Two batches over the stores S and T: in the first the scraper of S raises, in the
  second it returns no item. The scraper of T returns one item in both.
\<close>

definition scrapers_S_raises :: "py_str \<rightharpoonup> scraper_class" where
  "scrapers_S_raises =
     [str ''gourmet_scraper'' \<mapsto> (\<lambda>store. Inl (Exception ''timeout'')),
      str ''metro_scraper'' \<mapsto> (\<lambda>store. Inr [scraped_item ''Tomato 1kg'' 8 1000])]"

definition scrapers_S_empty :: "py_str \<rightharpoonup> scraper_class" where
  "scrapers_S_empty =
     [str ''gourmet_scraper'' \<mapsto> (\<lambda>store. Inr []),
      str ''metro_scraper'' \<mapsto> (\<lambda>store. Inr [scraped_item ''Tomato 1kg'' 8 1000])]"

definition two_stores_db :: database where
  "two_stores_db =
     \<lparr>db_stores = [store_S, store_T], db_products = [cucumbers, tomatoes], db_prices = [],
      db_price_history = []\<rparr>"

text \<open>The store of the scraper that returns an item comes first, then the store S.\<close>

definition same_name_db :: database where
  "same_name_db =
     \<lparr>db_stores = [store_S2, store_S], db_products = [cucumbers, tomatoes], db_prices = [],
      db_price_history = []\<rparr>"

section \<open>Facts about the string functions\<close>

lemmas string_eval =
  str_def lower_def ascii_lower_def strip_def isspace_def arabic_def
  cucumbers_def tomatoes_def lettuce_def

lemma str_in_sublist: "str_in sub s = sublist sub s"
  by (induction s) (auto simp: sublist_Cons_right)

lemma strip_stripped: "stripped seg (strip seg)"
proof -
  let ?m = "dropWhile isspace seg"
  let ?k = "rev (dropWhile isspace (rev ?m))"
  let ?r = "rev (takeWhile isspace (rev ?m))"
  have "?k @ ?r = rev (takeWhile isspace (rev ?m) @ dropWhile isspace (rev ?m))"
    by (simp only: rev_append)
  also have "\<dots> = rev (rev ?m)"
    by (simp only: takeWhile_dropWhile_id)
  finally have m: "?m = ?k @ ?r"
    by simp
  have "seg = takeWhile isspace seg @ ?m"
    by simp
  with m have seg: "seg = takeWhile isspace seg @ ?k @ ?r"
    by simp
  have l: "list_all isspace (takeWhile isspace seg)"
    by (simp add: list_all_iff) (meson set_takeWhileD)
  have r: "list_all isspace ?r"
    by (simp add: list_all_iff) (meson set_takeWhileD)
  have ends: "\<not> isspace (hd ?k) \<and> \<not> isspace (last ?k)" if ne: "?k \<noteq> []"
  proof
    from ne have "dropWhile isspace (rev ?m) \<noteq> []"
      by simp
    then have "\<not> isspace (hd (dropWhile isspace (rev ?m)))"
      by (rule hd_dropWhile)
    with ne show "\<not> isspace (last ?k)"
      by (simp add: last_rev)
    have "\<And>m. rev (dropWhile isspace (rev m)) \<noteq> [] \<Longrightarrow> m \<noteq> []"
      by auto
    from this ne have "?m \<noteq> []" .
    then have "\<not> isspace (hd ?m)"
      by (rule hd_dropWhile)
    moreover from ne have "hd (?k @ ?r) = hd ?k"
      by (rule hd_append2)
    with m have "hd ?m = hd ?k"
      by simp
    ultimately show "\<not> isspace (hd ?k)"
      by simp
  qed
  from seg l r ends show ?thesis
    unfolding stripped_def strip_def by blast
qed

lemma stripped_unique:
  assumes "stripped seg k"
  shows "k = strip seg"
proof -
  from assms obtain l r where seg: "seg = l @ k @ r" and l: "list_all isspace l"
    and r: "list_all isspace r"
    unfolding stripped_def by blast
  from l have dl: "dropWhile isspace (l @ k @ r) = dropWhile isspace (k @ r)"
    by (intro dropWhile_append2) (simp add: list_all_iff)
  from r have dr: "dropWhile isspace (rev r @ rev k) = dropWhile isspace (rev k)"
    by (intro dropWhile_append2) (simp add: list_all_iff)
  show ?thesis
  proof (cases "k = []")
    case True
    with seg l r have "list_all isspace seg"
      by simp
    then have "dropWhile isspace seg = []"
      by (simp add: list_all_iff)
    then have "strip seg = []"
      by (simp only: strip_def rev.simps dropWhile.simps)
    with True show ?thesis
      by simp
  next
    case False
    with assms have h: "\<not> isspace (hd k)" and t: "\<not> isspace (last k)"
      unfolding stripped_def by auto
    from False h have "dropWhile isspace (k @ r) = k @ r"
      by (cases k) simp_all
    moreover from False t have "dropWhile isspace (rev k) = rev k"
      by (cases "rev k") (simp_all add: last_rev [symmetric] hd_rev)
    ultimately show ?thesis
      using seg dl dr by (simp add: strip_def)
  qed
qed

lemma stripped_Nil: "stripped seg [] = list_all isspace seg"
  unfolding stripped_def
proof (intro iffI)
  assume "(\<exists>l r. seg = l @ [] @ r \<and> list_all isspace l \<and> list_all isspace r) \<and>
    ([] = [] \<or> \<not> isspace (hd []) \<and> \<not> isspace (last []))"
  then show "list_all isspace seg"
    by auto
next
  assume "list_all isspace seg"
  then have "seg = seg @ [] @ [] \<and> list_all isspace seg \<and> list_all isspace []"
    by simp
  then show "(\<exists>l r. seg = l @ [] @ r \<and> list_all isspace l \<and> list_all isspace r) \<and>
    ([] = [] \<or> \<not> isspace (hd []) \<and> \<not> isspace (last []))"
    by blast
qed

lemma split_on_not_Nil: "split_on sep s \<noteq> []"
  by (induction s) (auto split: list.splits)

lemma ascii_lower_comma: "(ascii_lower c = 44) = (c = 44)"
  by (simp add: ascii_lower_def)

lemma isspace_ascii_lower: "isspace (ascii_lower c) = isspace c"
  by (simp add: ascii_lower_def isspace_def)

lemma split_on_ascii_lower:
  "split_on 44 (map ascii_lower s) = map (map ascii_lower) (split_on 44 s)"
proof (induction s)
  case Nil
  then show ?case by simp
next
  case (Cons c cs)
  then show ?case
    using split_on_not_Nil [of 44 cs]
    by (cases "split_on 44 cs") (auto simp: ascii_lower_comma)
qed

lemma has_blank_keyword_ascii_lower:
  assumes "has_blank_keyword s"
  shows "has_blank_keyword (map ascii_lower s)"
proof -
  from assms obtain seg where seg: "seg \<in> set (split_on 44 s)" and b: "list_all isspace seg"
    unfolding has_blank_keyword_def stripped_Nil by blast
  from b have "list_all isspace (map ascii_lower seg)"
    by (simp add: list_all_iff isspace_ascii_lower)
  moreover from seg have "map ascii_lower seg \<in> set (split_on 44 (map ascii_lower s))"
    by (simp add: split_on_ascii_lower)
  ultimately show ?thesis
    unfolding has_blank_keyword_def stripped_Nil by blast
qed

lemma has_blank_keyword_lower:
  assumes "has_blank_keyword s"
    and "list_all (\<lambda>c. c < 128) s \<or> keeps_blank_keywords u"
  shows "has_blank_keyword (lower u s)"
proof (cases "list_all (\<lambda>c. c < 128) s")
  case True
  with assms(1) show ?thesis
    by (simp add: lower_def has_blank_keyword_ascii_lower)
next
  case False
  with assms show ?thesis
    by (simp add: lower_def keeps_blank_keywords_def)
qed

lemma keeps_blank_keywords_arabic: "keeps_blank_keywords arabic"
  by (simp add: keeps_blank_keywords_def arabic_def has_blank_keyword_ascii_lower)

section \<open>The reconciler's match\<close>

lemma any_keyword_in_iff:
  "any_keyword_in u kws scraped_name =
     (\<exists>seg \<in> set kws. sublist (strip seg) (lower u scraped_name))"
  by (induction kws) (auto simp: str_in_sublist)

lemma product_hit_iff:
  "any_keyword_in u (split_on 44 (lower u (p_keywords p))) scraped_name =
     keyword_hit u scraped_name p"
  unfolding any_keyword_in_iff keyword_hit_def
  using strip_stripped stripped_unique by blast

lemma find_matching_product_find:
  "find_matching_product u catalog scraped_name = List.find (keyword_hit u scraped_name) catalog"
  by (induction catalog) (simp_all add: product_hit_iff)

text \<open>
  Claim C5. For every catalog and every scraped name, the match returns the first
  catalog entry, in catalog order, one of whose keywords is a case-insensitive
  substring of the scraped name, and \<open>None\<close> when no entry has such a keyword.
\<close>

theorem find_matching_product_first_match:
  "((find_matching_product u catalog scraped_name = None) =
      (\<forall>p \<in> set catalog. \<not> keyword_hit u scraped_name p)) \<and>
   ((find_matching_product u catalog scraped_name = Some q) =
      (\<exists>i < length catalog. catalog ! i = q \<and> keyword_hit u scraped_name q \<and>
         (\<forall>j < i. \<not> keyword_hit u scraped_name (catalog ! j))))"
  by (auto simp: find_matching_product_find find_None_iff find_Some_iff)

text \<open>
  The name "TOMATO 1kg" is matched to "Tomatoes", the second entry, through its second
  keyword, which is "tomato" once lowered and without the space before it; "Unknown
  Widget" has no match.
\<close>

theorem find_matching_product_first_match_witness:
  "split_on 44 (lower arabic (p_keywords tomatoes)) = [str ''tomatoes'', str '' tomato''] \<and>
   stripped (str '' tomato'') (str ''tomato'') \<and>
   lower arabic (str ''TOMATO 1kg'') = str ''tomato 1kg'' \<and>
   sublist (str ''tomato'') (str ''tomato 1kg'') \<and>
   keyword_hit arabic (str ''TOMATO 1kg'') tomatoes \<and>
   \<not> keyword_hit arabic (str ''TOMATO 1kg'') cucumbers \<and>
   find_matching_product arabic [cucumbers, tomatoes, lettuce] (str ''TOMATO 1kg'') =
     Some tomatoes \<and>
   find_matching_product arabic [cucumbers, tomatoes] (str ''Unknown Widget'') = None"
proof -
  have seg: "split_on 44 (lower arabic (p_keywords tomatoes)) =
      [str ''tomatoes'', str '' tomato'']"
    by (simp add: string_eval)
  have "strip (str '' tomato'') = str ''tomato''"
    by (simp add: string_eval)
  then have st: "stripped (str '' tomato'') (str ''tomato'')"
    using strip_stripped [of "str '' tomato''"] by simp
  have lo: "lower arabic (str ''TOMATO 1kg'') = str ''tomato 1kg''"
    by (simp add: string_eval)
  have sub: "sublist (str ''tomato'') (str ''tomato 1kg'')"
    by (simp add: string_eval)
  have "str '' tomato'' \<in> set (split_on 44 (lower arabic (p_keywords tomatoes)))"
    by (simp add: seg)
  with st sub lo have hit: "keyword_hit arabic (str ''TOMATO 1kg'') tomatoes"
    unfolding keyword_hit_def by auto
  have "\<not> any_keyword_in arabic (split_on 44 (lower arabic (p_keywords cucumbers)))
           (str ''TOMATO 1kg'')"
    by (simp add: string_eval)
  then have miss: "\<not> keyword_hit arabic (str ''TOMATO 1kg'') cucumbers"
    by (simp add: product_hit_iff)
  have "\<exists>i < length [cucumbers, tomatoes, lettuce].
          [cucumbers, tomatoes, lettuce] ! i = tomatoes \<and>
          keyword_hit arabic (str ''TOMATO 1kg'') tomatoes \<and>
          (\<forall>j < i. \<not> keyword_hit arabic (str ''TOMATO 1kg'')
             ([cucumbers, tomatoes, lettuce] ! j))"
    by (rule exI [of _ 1]) (simp add: hit miss)
  then have first:
    "find_matching_product arabic [cucumbers, tomatoes, lettuce] (str ''TOMATO 1kg'') =
       Some tomatoes"
    using find_matching_product_first_match
      [where u = arabic and catalog = "[cucumbers, tomatoes, lettuce]"
         and scraped_name = "str ''TOMATO 1kg''" and q = tomatoes]
    by blast
  have "\<not> any_keyword_in arabic (split_on 44 (lower arabic (p_keywords cucumbers)))
           (str ''Unknown Widget'')"
    "\<not> any_keyword_in arabic (split_on 44 (lower arabic (p_keywords tomatoes)))
           (str ''Unknown Widget'')"
    by (simp_all add: string_eval)
  then have "\<forall>p \<in> set [cucumbers, tomatoes]. \<not> keyword_hit arabic (str ''Unknown Widget'') p"
    by (simp add: product_hit_iff)
  then have none:
    "find_matching_product arabic [cucumbers, tomatoes] (str ''Unknown Widget'') = None"
    using find_matching_product_first_match
      [where u = arabic and catalog = "[cucumbers, tomatoes]"
         and scraped_name = "str ''Unknown Widget''" and q = tomatoes]
    by blast
  from seg st lo sub hit miss first none show ?thesis
    by blast
qed

text \<open>
  Claim C10. If the keywords string of a catalog product yields an empty segment after
  splitting at the commas and stripping the white space (an empty keywords field, a
  trailing comma), the match returns \<open>None\<close> for no scraped name: every name is
  matched to that product or to an earlier entry of the catalog. The code lowers the
  keywords string before it splits it; the segment stays blank, for ASCII keywords by
  the definition of \<open>lower\<close>, beyond ASCII by the named property of \<open>str.lower\<close>.
\<close>

theorem empty_keyword_matches_every_name:
  assumes "j < length catalog"
    and "has_blank_keyword (p_keywords (catalog ! j))"
    and "list_all (\<lambda>c. c < 128) (p_keywords (catalog ! j)) \<or> keeps_blank_keywords u"
  shows "\<exists>i \<le> j. find_matching_product u catalog scraped_name = Some (catalog ! i)"
proof -
  from assms(2,3) have "has_blank_keyword (lower u (p_keywords (catalog ! j)))"
    by (rule has_blank_keyword_lower)
  then obtain seg where seg: "seg \<in> set (split_on 44 (lower u (p_keywords (catalog ! j))))"
    and e: "stripped seg []"
    unfolding has_blank_keyword_def by blast
  have "sublist [] (lower u scraped_name)"
    by simp
  with seg e have hit: "keyword_hit u scraped_name (catalog ! j)"
    unfolding keyword_hit_def by blast
  from assms(1) have "catalog ! j \<in> set catalog"
    by simp
  with hit have "\<exists>p \<in> set catalog. keyword_hit u scraped_name p"
    by blast
  then have "find_matching_product u catalog scraped_name \<noteq> None"
    by (auto simp: find_matching_product_find find_None_iff)
  then obtain q where q: "find_matching_product u catalog scraped_name = Some q"
    by auto
  then obtain i where i: "i < length catalog" "catalog ! i = q"
     "\<forall>k < i. \<not> keyword_hit u scraped_name (catalog ! k)"
    by (auto simp: find_matching_product_find find_Some_iff)
  from i(3) hit have "i \<le> j"
    by (meson not_le)
  with q i show ?thesis
    by auto
qed

text \<open>
  The keywords of "Lettuce" end in a comma and a no-break space: the segment after the
  comma is blank, and "Unknown Widget" is matched to "Lettuce", the third entry. So is
  every name by an entry with an empty keywords field.
\<close>

theorem empty_keyword_matches_every_name_witness:
  "split_on 44 (p_keywords lettuce) = [str ''lettuce'', [0xA0]] \<and>
   strip [0xA0] = [] \<and>
   has_blank_keyword (p_keywords lettuce) \<and>
   has_blank_keyword [] \<and>
   keeps_blank_keywords arabic \<and>
   find_matching_product arabic [cucumbers, tomatoes, lettuce] (str ''Unknown Widget'') =
     Some lettuce"
proof -
  let ?cat = "[cucumbers, tomatoes, lettuce]"
  have seg: "split_on 44 (p_keywords lettuce) = [str ''lettuce'', [0xA0]]"
    by (simp add: string_eval)
  have st: "strip [0xA0] = []"
    by (simp add: string_eval)
  have "list_all isspace [0xA0]"
    by (simp add: string_eval)
  with seg have b: "has_blank_keyword (p_keywords lettuce)"
    unfolding has_blank_keyword_def stripped_Nil by simp
  have b': "has_blank_keyword []"
    unfolding has_blank_keyword_def stripped_Nil by simp
  note k = keeps_blank_keywords_arabic
  have "\<exists>i \<le> 2. find_matching_product arabic ?cat (str ''Unknown Widget'') = Some (?cat ! i)"
    using empty_keyword_matches_every_name
      [where j = 2 and catalog = ?cat and u = arabic and scraped_name = "str ''Unknown Widget''"]
      b k
    by simp
  then obtain i where i: "i \<le> 2"
    and r: "find_matching_product arabic ?cat (str ''Unknown Widget'') = Some (?cat ! i)"
    by blast
  have n0: "find_matching_product arabic ?cat (str ''Unknown Widget'') \<noteq> Some cucumbers"
    by (simp add: string_eval)
  have n1: "find_matching_product arabic ?cat (str ''Unknown Widget'') \<noteq> Some tomatoes"
    by (simp add: string_eval)
  from i have "i = 0 \<or> i = 1 \<or> i = 2"
    by auto
  with r n0 n1 have "find_matching_product arabic ?cat (str ''Unknown Widget'') = Some lettuce"
    by auto
  with seg st b b' k show ?thesis
    by blast
qed

section \<open>The category classifier: list B before list A\<close>

lemma any_keyword_found_iff:
  "any_keyword_found u kws text_to_search =
     (\<exists>kw \<in> set kws. re_search_word u kw text_to_search)"
  by (induction kws) auto

lemma classify_with_B_first:
  "classify_with u keywords_A keywords_B product_name =
     (if \<exists>kw \<in> set keywords_B. re_search_word u kw (lower u product_name)
      then str ''B'' else str ''A'')"
  by (simp add: classify_with_def any_keyword_found_iff)

lemma re_search_word_list_ex:
  "re_search_word u keyword text =
     list_ex
       (\<lambda>i. i + length keyword \<le> length text \<and>
          take (length keyword) (drop i text) = keyword \<and>
          word_boundary u text i \<and> word_boundary u text (i + length keyword))
       [0 ..< Suc (length text)]"
  by (simp only: re_search_word_def list_ex_iff)

lemmas classify_eval =
  classify_def classify_with_def category_keywords_A_def category_keywords_B_def
  re_search_word_list_ex word_boundary_def is_word_char_def
  str_def lower_def ascii_lower_def arabic_def Let_def

lemma classify_cherry_tomato: "classify u (str ''Cherry Tomato Pack 500g'') = str ''A''"
  by (simp add: classify_eval)

lemma classify_with_swapped_lists:
  "classify_with u [str ''tomato''] [str ''cherry tomato''] (str ''Cherry Tomato Pack 500g'') =
     str ''B''"
  by (simp add: classify_eval)

text \<open>
  Claim C6, as stated, fails on the keyword lists the classifier is built with:
  "cherry tomato" stands in list A and no keyword of list B occurs in
  "Cherry Tomato Pack 500g", so the classifier returns "A" for that name.
\<close>

theorem classify_cherry_tomato_counterexample:
  "classify arabic (str ''Cherry Tomato Pack 500g'') = str ''A'' \<and>
   classify arabic (str ''Cherry Tomato Pack 500g'') \<noteq> str ''B''"
  by (simp add: classify_eval)

text \<open>
  Claim C6, amended. The classifier returns "B" exactly when a keyword of list B occurs
  in the lowered name between word boundaries, whatever list A holds, and "A"
  otherwise. With the lists A = [tomato], B = [cherry tomato] of the specification's
  example, "Cherry Tomato Pack 500g" is classified "B"; with the lists the classifier is
  built with it is classified "A".
\<close>

theorem classify_B_before_A:
  "classify_with u keywords_A keywords_B product_name =
     (if \<exists>kw \<in> set keywords_B. re_search_word u kw (lower u product_name)
      then str ''B'' else str ''A'') \<and>
   classify u product_name =
     (if \<exists>kw \<in> set category_keywords_B. re_search_word u kw (lower u product_name)
      then str ''B'' else str ''A'') \<and>
   classify_with u [str ''tomato''] [str ''cherry tomato''] (str ''Cherry Tomato Pack 500g'') =
     str ''B'' \<and>
   classify u (str ''Cherry Tomato Pack 500g'') = str ''A''"
  using classify_cherry_tomato classify_with_swapped_lists
  by (simp add: classify_def classify_with_B_first)

text \<open>
  "lettuce" of list B is found before a dash (U+2014), which is no word character, and
  not in "Lettuces"; the Arabic keyword of the codes 62E, 633 is found as a word and not
  inside a longer Arabic word.
\<close>

theorem classify_B_before_A_witness:
  "re_search_word arabic (str ''lettuce'')
     (lower arabic (str ''Fresh Lettuce'' @ [0x2014] @ str ''1pc'')) \<and>
   classify arabic (str ''Fresh Lettuce'' @ [0x2014] @ str ''1pc'') = str ''B'' \<and>
   \<not> (\<exists>kw \<in> set category_keywords_B. re_search_word arabic kw (lower arabic (str ''Lettuces''))) \<and>
   classify arabic (str ''Lettuces'') = str ''A'' \<and>
   classify arabic ([0x062E, 0x0633] @ str '' 1kg'') = str ''B'' \<and>
   classify arabic [0x062E, 0x0633, 0x0627, 0x0631, 0x0629] = str ''A''"
proof -
  let ?dash = "str ''Fresh Lettuce'' @ [0x2014] @ str ''1pc''"
  have hit: "re_search_word arabic (str ''lettuce'') (lower arabic ?dash)"
    by (simp add: classify_eval)
  then have "\<exists>kw \<in> set category_keywords_B. re_search_word arabic kw (lower arabic ?dash)"
    by (simp add: category_keywords_B_def)
  then have b: "classify arabic ?dash = str ''B''"
    using classify_B_before_A [where u = arabic and product_name = ?dash]
    by simp
  have miss: "\<not> (\<exists>kw \<in> set category_keywords_B.
      re_search_word arabic kw (lower arabic (str ''Lettuces'')))"
    by (simp add: classify_eval)
  then have a: "classify arabic (str ''Lettuces'') = str ''A''"
    using classify_B_before_A [where u = arabic and product_name = "str ''Lettuces''"]
    by simp
  have k: "classify arabic ([0x062E, 0x0633] @ str '' 1kg'') = str ''B''"
    by (simp add: classify_eval)
  have l: "classify arabic [0x062E, 0x0633, 0x0627, 0x0631, 0x0629] = str ''A''"
    by (simp add: classify_eval)
  from hit b miss a k l show ?thesis
    by blast
qed

section \<open>Facts about the processing loop\<close>

lemma process_loop_append:
  "process_loop u autoflush recorded_at store_id (xs @ ys) w =
   process_loop u autoflush recorded_at store_id ys
     (process_loop u autoflush recorded_at store_id xs w)"
  by (induction xs arbitrary: w) (auto simp: Let_def split: option.splits)

lemma process_loop_Cons:
  "process_loop u autoflush recorded_at store_id (item # rest) w =
   process_loop u autoflush recorded_at store_id rest
     (process_loop u autoflush recorded_at store_id [item] w)"
  using process_loop_append [of u autoflush recorded_at store_id "[item]" rest w]
  by simp

lemma process_loop_products:
  "db_products (fst (process_loop u autoflush recorded_at store_id items w)) =
   db_products (fst w)"
  by (induction items arbitrary: w)
    (auto simp: Let_def add_price_def split: option.splits prod.splits)

lemma process_loop_stores:
  "db_stores (fst (process_loop u autoflush recorded_at store_id items w)) = db_stores (fst w)"
  by (induction items arbitrary: w)
    (auto simp: Let_def add_price_def split: option.splits prod.splits)

lemma process_loop_pending:
  "snd (process_loop u True recorded_at store_id items w) = snd w"
  by (induction items arbitrary: w)
    (auto simp: Let_def add_price_def split: option.splits prod.splits)

lemma accepted_products:
  "db_products db' = db_products db \<Longrightarrow> accepted u db' = accepted u db"
  by (auto simp: accepted_def fun_eq_iff)

lemma matched_id_products:
  "db_products db' = db_products db \<Longrightarrow> matched_id u db' = matched_id u db"
  by (auto simp: matched_id_def fun_eq_iff)

lemma process_loop_skip:
  "\<not> accepted u (fst w) item \<Longrightarrow>
   process_loop u autoflush recorded_at store_id (item # rest) w =
   process_loop u autoflush recorded_at store_id rest w"
  by (auto simp: accepted_def not_less split: option.splits)

lemma find_same_pair_None:
  "(List.find (same_pair product_id store_id) rows = None) =
   ((product_id, store_id) \<notin> set (map pair_of rows))"
  by (auto simp: find_None_iff same_pair_def pair_of_def)

lemma find_same_pair_Some:
  "List.find (same_pair product_id store_id) rows = Some r \<Longrightarrow>
   \<exists>r \<in> set rows. same_pair product_id store_id r"
  by (auto simp: find_Some_iff)

lemma process_loop_accept:
  assumes "accepted u (fst w) item"
  shows "process_loop u True recorded_at store_id (item # rest) w =
   process_loop u True recorded_at store_id rest
     (upsert recorded_at (matched_id u (fst w) item) store_id item (fst w), snd w)"
proof -
  from assms obtain db_product where
    m: "find_matching_product u (db_products (fst w)) (d_name item) = Some db_product"
    and n: "d_name item \<noteq> []" "\<not> d_price item \<le> 0"
    by (auto simp: accepted_def)
  show ?thesis
  proof (cases "List.find (same_pair (p_id db_product) store_id) (db_prices (fst w))")
    case None
    then have "\<not> (\<exists>r \<in> set (db_prices (fst w)). same_pair (p_id db_product) store_id r)"
      by (simp add: find_None_iff)
    with None m n show ?thesis
      by (simp add: matched_id_def upsert_def upsert_price_def add_price_def Let_def)
  next
    case (Some r)
    then have "\<exists>r \<in> set (db_prices (fst w)). same_pair (p_id db_product) store_id r"
      by (rule find_same_pair_Some)
    with Some m n show ?thesis
      by (simp add: matched_id_def upsert_def upsert_price_def Let_def)
  qed
qed

lemma process_loop_filter:
  "process_loop u autoflush recorded_at store_id items w =
   process_loop u autoflush recorded_at store_id (filter (accepted u (fst w)) items) w"
proof (induction items arbitrary: w)
  case Nil
  then show ?case by simp
next
  case (Cons item rest)
  show ?case
  proof (cases "accepted u (fst w) item")
    case False
    then show ?thesis
      using Cons.IH [of w] by (simp add: process_loop_skip del: process_loop.simps)
  next
    case True
    let ?w = "process_loop u autoflush recorded_at store_id [item] w"
    have "accepted u (fst ?w) = accepted u (fst w)"
      by (rule accepted_products) (rule process_loop_products)
    with True show ?thesis
      using Cons.IH [of ?w]
        process_loop_Cons [of u autoflush recorded_at store_id item rest w]
        process_loop_Cons [of u autoflush recorded_at store_id item
          "filter (accepted u (fst w)) rest" w]
      by (simp del: process_loop.simps)
  qed
qed

lemma process_loop_one_history:
  "db_price_history (fst (process_loop u autoflush recorded_at store_id [item] w)) =
     (if accepted u (fst w) item
      then db_price_history (fst w) @
           [history_entry (recorded_at (length (db_price_history (fst w))))
              (matched_id u (fst w) item) store_id item]
      else db_price_history (fst w))"
  by (auto simp: accepted_def matched_id_def Let_def add_price_def not_less
      split: option.splits prod.splits)

lemma process_loop_history:
  "db_price_history (fst (process_loop u autoflush recorded_at store_id items w)) =
   db_price_history (fst w) @
   map (\<lambda>(k, item).
          history_entry (recorded_at (length (db_price_history (fst w)) + k))
            (matched_id u (fst w) item) store_id item)
     (enumerate 0 (filter (accepted u (fst w)) items))"
proof (induction items arbitrary: w)
  case Nil
  then show ?case by simp
next
  case (Cons item rest)
  let ?w = "process_loop u autoflush recorded_at store_id [item] w"
  have eq: "accepted u (fst ?w) = accepted u (fst w)" "matched_id u (fst ?w) = matched_id u (fst w)"
    by (rule accepted_products, rule process_loop_products)
      (rule matched_id_products, rule process_loop_products)
  show ?case
  proof (cases "accepted u (fst w) item")
    case False
    then show ?thesis
      using Cons.IH [of w] by (simp add: process_loop_skip del: process_loop.simps)
  next
    case True
    then have h: "db_price_history (fst ?w) = db_price_history (fst w) @
           [history_entry (recorded_at (length (db_price_history (fst w))))
              (matched_id u (fst w) item) store_id item]"
      by (simp add: process_loop_one_history del: process_loop.simps)
    show ?thesis
      unfolding process_loop_Cons [of u autoflush recorded_at store_id item rest w]
        Cons.IH [of ?w] eq h
      using True
      by (simp add: enumerate_Suc_eq [of 0] comp_def split_def del: process_loop.simps)
  qed
qed

lemma process_loop_history_length:
  "length (db_price_history (fst (process_loop u autoflush recorded_at store_id items w))) =
   length (db_price_history (fst w)) + length (filter (accepted u (fst w)) items)"
  by (simp add: process_loop_history)

lemma process_loop_pair_history:
  "length (pair_history product_id store_id
     (db_price_history (fst (process_loop u autoflush recorded_at store_id items w)))) =
   length (pair_history product_id store_id (db_price_history (fst w))) +
   length (filter (\<lambda>item. accepted u (fst w) item \<and> matched_id u (fst w) item = product_id)
     items)"
proof (induction items arbitrary: w)
  case Nil
  then show ?case by simp
next
  case (Cons item rest)
  let ?w = "process_loop u autoflush recorded_at store_id [item] w"
  have eq: "accepted u (fst ?w) = accepted u (fst w)" "matched_id u (fst ?w) = matched_id u (fst w)"
    by (rule accepted_products, rule process_loop_products)
      (rule matched_id_products, rule process_loop_products)
  show ?case
    unfolding process_loop_Cons [of u autoflush recorded_at store_id item rest w]
      Cons.IH [of ?w] eq
    by (simp add: process_loop_one_history pair_history_def history_entry_def
        del: process_loop.simps)
qed


section \<open>The upsert and the ledger invariant\<close>

lemma update_first_map:
  "(\<And>r. g (f r) = g r) \<Longrightarrow> map g (update_first P f rows) = map g rows"
  by (induction rows) auto

lemma update_first_set:
  "r' \<in> set (update_first P f rows) \<Longrightarrow> r' \<in> set rows \<or> (\<exists>r \<in> set rows. P r \<and> r' = f r)"
  by (induction rows) (auto split: if_splits)

lemma update_first_unique:
  assumes "distinct (map g rows)" and "\<And>r. P r = (g r = k)" and "\<And>r. g (f r) = g r"
    and "r' \<in> set (update_first P f rows)" and "g r' = k"
  shows "\<exists>r \<in> set rows. r' = f r"
  using assms(1,4)
proof (induction rows)
  case Nil
  then show ?case by simp
next
  case (Cons x xs)
  show ?case
  proof (cases "P x")
    case True
    with Cons.prems assms(2,5) show ?thesis
      by (auto simp: image_iff)
  next
    case False
    with Cons assms(2,5) show ?thesis
      by auto
  qed
qed

lemma same_pair_pair_of: "same_pair product_id store_id r = (pair_of r = (product_id, store_id))"
  by (auto simp: same_pair_def pair_of_def)

lemma pair_of_update_price: "pair_of (update_price item r) = pair_of r"
  by (simp add: pair_of_def update_price_def)

lemma upsert_price_pairs:
  "map pair_of (upsert_price product_id store_id item rows) =
     (if (product_id, store_id) \<in> set (map pair_of rows) then map pair_of rows
      else map pair_of rows @ [(product_id, store_id)])"
proof (cases "\<exists>r \<in> set rows. same_pair product_id store_id r")
  case True
  then obtain r where "r \<in> set rows" "pair_of r = (product_id, store_id)"
    by (auto simp: same_pair_pair_of)
  then have "(product_id, store_id) \<in> set (map pair_of rows)"
    by force
  with True show ?thesis
    by (simp add: upsert_price_def update_first_map pair_of_update_price)
next
  case False
  then have "(product_id, store_id) \<notin> set (map pair_of rows)"
    by (auto simp: same_pair_pair_of image_iff)
  with False show ?thesis
    by (simp add: upsert_price_def pair_of_def first_price_def)
qed

lemma upsert_price_distinct:
  "distinct (map pair_of rows) \<Longrightarrow>
   distinct (map pair_of (upsert_price product_id store_id item rows))"
  by (simp add: upsert_price_pairs)

lemma upsert_price_row:
  assumes "distinct (map pair_of rows)"
    and "r' \<in> set (upsert_price product_id store_id item rows)"
  shows "if pair_of r' = (product_id, store_id)
         then pr_price r' = d_price item \<and> pr_is_available r' = d_is_available item \<and>
              pr_scraped_at r' = d_scraped_at item
         else r' \<in> set rows"
proof (cases "\<exists>r \<in> set rows. same_pair product_id store_id r")
  case False
  with assms(2) have "r' \<in> set rows \<or> r' = first_price product_id store_id item"
    by (auto simp: upsert_price_def)
  then show ?thesis
  proof
    assume r: "r' \<in> set rows"
    with False have "pair_of r' \<noteq> (product_id, store_id)"
      by (auto simp: same_pair_pair_of)
    with r show ?thesis
      by simp
  next
    assume "r' = first_price product_id store_id item"
    then show ?thesis
      by (simp add: pair_of_def first_price_def)
  qed
next
  case True
  with assms(2)
  have mem: "r' \<in> set (update_first (same_pair product_id store_id) (update_price item) rows)"
    by (simp add: upsert_price_def)
  show ?thesis
  proof (cases "pair_of r' = (product_id, store_id)")
    case True
    have "\<exists>r \<in> set rows. r' = update_price item r"
      by (rule update_first_unique [OF assms(1) _ _ mem True])
        (simp_all add: same_pair_pair_of pair_of_update_price)
    with True show ?thesis
      by (auto simp: update_price_def)
  next
    case False
    from update_first_set [OF mem] False show ?thesis
      by (auto simp: pair_of_update_price same_pair_pair_of)
  qed
qed

lemma latest_append_last:
  "\<forall>h \<in> set hs. h_recorded_at h \<le> h_recorded_at e \<Longrightarrow> latest (hs @ [e]) = Some e"
  by (induction hs) auto

lemma pair_history_append:
  "pair_history product_id store_id (hs @ [e]) =
     (if h_product_id e = product_id \<and> h_store_id e = store_id
      then pair_history product_id store_id hs @ [e]
      else pair_history product_id store_id hs)"
  by (simp add: pair_history_def)

lemma pair_history_subset: "set (pair_history product_id store_id hs) \<subseteq> set hs"
  by (auto simp: pair_history_def)

lemma upsert_keeps_invariant:
  assumes "ledger_inv db" and "clock_not_behind recorded_at db"
  shows "ledger_inv (upsert recorded_at product_id store_id item db) \<and>
         clock_not_behind recorded_at (upsert recorded_at product_id store_id item db)"
proof
  let ?n = "length (db_price_history db)"
  let ?e = "history_entry (recorded_at ?n) product_id store_id item"
  from assms(1) have d: "distinct (map pair_of (db_prices db))"
    and a: "\<And>r. r \<in> set (db_prices db) \<Longrightarrow> agrees_with_history (db_price_history db) r"
    by (auto simp: ledger_inv_def list_all_iff)
  from assms(2) have mono: "\<And>m n. m \<le> n \<Longrightarrow> recorded_at m \<le> recorded_at n"
    and old: "\<And>h. h \<in> set (db_price_history db) \<Longrightarrow> h_recorded_at h \<le> recorded_at ?n"
    by (auto simp: clock_not_behind_def list_all_iff)
  have "agrees_with_history (db_price_history db @ [?e]) r'"
    if "r' \<in> set (upsert_price product_id store_id item (db_prices db))" for r'
  proof (cases "pair_of r' = (product_id, store_id)")
    case True
    with upsert_price_row [OF d that]
    have v: "pr_price r' = d_price item \<and> pr_is_available r' = d_is_available item"
      by simp
    from True have p: "pr_product_id r' = product_id" "pr_store_id r' = store_id"
      by (simp_all add: pair_of_def)
    have "\<forall>h \<in> set (pair_history product_id store_id (db_price_history db)).
        h_recorded_at h \<le> h_recorded_at ?e"
      using old pair_history_subset [of product_id store_id "db_price_history db"]
      by (auto simp: history_entry_def)
    then have "latest (pair_history product_id store_id (db_price_history db) @ [?e]) = Some ?e"
      by (rule latest_append_last)
    then have "latest (pair_history product_id store_id (db_price_history db @ [?e])) = Some ?e"
      by (simp add: pair_history_append history_entry_def)
    with v p show ?thesis
      by (simp add: agrees_with_history_def history_entry_def)
  next
    case False
    with upsert_price_row [OF d that] have "r' \<in> set (db_prices db)"
      by simp
    then have "agrees_with_history (db_price_history db) r'"
      by (rule a)
    moreover from False have "pair_history (pr_product_id r') (pr_store_id r')
        (db_price_history db @ [?e]) =
        pair_history (pr_product_id r') (pr_store_id r') (db_price_history db)"
      by (auto simp: pair_history_append pair_of_def history_entry_def)
    ultimately show ?thesis
      by (simp add: agrees_with_history_def)
  qed
  with d show "ledger_inv (upsert recorded_at product_id store_id item db)"
    by (simp add: ledger_inv_def upsert_def list_all_iff upsert_price_distinct)
  have "h_recorded_at h \<le> recorded_at (Suc ?n)" if "h \<in> set (db_price_history db @ [?e])" for h
  proof (cases "h = ?e")
    case True
    then show ?thesis
      using mono [of ?n "Suc ?n"] by (simp add: history_entry_def)
  next
    case False
    with that have "h_recorded_at h \<le> recorded_at ?n"
      using old by auto
    with mono [of ?n "Suc ?n"] show ?thesis
      by simp
  qed
  with mono show "clock_not_behind recorded_at (upsert recorded_at product_id store_id item db)"
    by (simp add: clock_not_behind_def upsert_def list_all_iff)
qed

lemma process_loop_invariant:
  "ledger_inv (fst w) \<Longrightarrow> clock_not_behind recorded_at (fst w) \<Longrightarrow>
   ledger_inv (fst (process_loop u True recorded_at store_id items w)) \<and>
   clock_not_behind recorded_at (fst (process_loop u True recorded_at store_id items w))"
proof (induction items arbitrary: w)
  case Nil
  then show ?case by simp
next
  case (Cons item rest)
  show ?case
  proof (cases "accepted u (fst w) item")
    case False
    then show ?thesis
      using Cons by (simp add: process_loop_skip del: process_loop.simps)
  next
    case True
    let ?db = "upsert recorded_at (matched_id u (fst w) item) store_id item (fst w)"
    from upsert_keeps_invariant [OF Cons.prems]
    have "ledger_inv ?db" "clock_not_behind recorded_at ?db"
      by blast+
    then show ?thesis
      using Cons.IH [of "(?db, snd w)"] True
      by (simp add: process_loop_accept del: process_loop.simps)
  qed
qed

lemma flush_Nil: "flush (db, []) = db"
  by (simp add: flush_def)

lemma process_scraped_data_committed:
  "process_scraped_data u True True recorded_at db store_id scraped_products =
   fst (process_loop u True recorded_at store_id scraped_products (db, []))"
proof -
  have "snd (process_loop u True recorded_at store_id scraped_products (db, [])) = []"
    by (simp add: process_loop_pending)
  then have "flush (process_loop u True recorded_at store_id scraped_products (db, [])) =
      fst (process_loop u True recorded_at store_id scraped_products (db, []))"
    by (cases "process_loop u True recorded_at store_id scraped_products (db, [])")
      (simp add: flush_def)
  then show ?thesis
    by (simp add: process_scraped_data_def Let_def)
qed

lemma process_scraped_data_rollback:
  "process_scraped_data u autoflush False recorded_at db store_id scraped_products = db"
  by (simp add: process_scraped_data_def Let_def)

lemma process_scraped_data_invariant:
  assumes "ledger_inv db" and "clock_not_behind recorded_at db"
  shows "ledger_inv (process_scraped_data u True commit_ok recorded_at db store_id items) \<and>
         clock_not_behind recorded_at
           (process_scraped_data u True commit_ok recorded_at db store_id items)"
proof (cases commit_ok)
  case True
  then show ?thesis
    using process_loop_invariant [of "(db, [])" recorded_at u store_id items] assms
    by (simp add: process_scraped_data_committed)
next
  case False
  with assms show ?thesis
    by (simp add: process_scraped_data_rollback)
qed

section \<open>Facts about whole batches\<close>

lemma db_prices_upsert:
  "db_prices (upsert recorded_at product_id store_id item db) =
     upsert_price product_id store_id item (db_prices db)"
  by (simp add: upsert_def)

lemma db_products_upsert:
  "db_products (upsert recorded_at product_id store_id item db) = db_products db"
  by (simp add: upsert_def)

lemma process_loop_distinct:
  "distinct (map pair_of (db_prices (fst w))) \<Longrightarrow>
   distinct (map pair_of (db_prices (fst (process_loop u True recorded_at store_id items w))))"
proof (induction items arbitrary: w)
  case Nil
  then show ?case by simp
next
  case (Cons item rest)
  show ?case
  proof (cases "accepted u (fst w) item")
    case False
    then show ?thesis
      using Cons by (simp add: process_loop_skip del: process_loop.simps)
  next
    case True
    then show ?thesis
      using Cons.IH [of "(upsert recorded_at (matched_id u (fst w) item) store_id item (fst w),
          snd w)"] Cons.prems
      by (simp add: process_loop_accept db_prices_upsert upsert_price_distinct
          del: process_loop.simps)
  qed
qed

lemma process_loop_pairs_set:
  "set (map pair_of (db_prices (fst (process_loop u True recorded_at store_id items w)))) =
   set (map pair_of (db_prices (fst w))) \<union>
   (\<lambda>item. (matched_id u (fst w) item, store_id)) ` {item \<in> set items. accepted u (fst w) item}"
proof (induction items arbitrary: w)
  case Nil
  then show ?case by simp
next
  case (Cons item rest)
  show ?case
  proof (cases "accepted u (fst w) item")
    case False
    then show ?thesis
      using Cons.IH [of w] by (auto simp: process_loop_skip simp del: process_loop.simps)
  next
    case True
    let ?db = "upsert recorded_at (matched_id u (fst w) item) store_id item (fst w)"
    have "accepted u ?db = accepted u (fst w)" "matched_id u ?db = matched_id u (fst w)"
      by (rule accepted_products, rule db_products_upsert)
        (rule matched_id_products, rule db_products_upsert)
    with True show ?thesis
      using Cons.IH [of "(?db, snd w)"]
      by (auto simp: process_loop_accept db_prices_upsert upsert_price_pairs
          simp del: process_loop.simps)
  qed
qed

lemma process_loop_pairs_present:
  "\<forall>item \<in> set items. accepted u (fst w) item \<longrightarrow>
      (matched_id u (fst w) item, store_id) \<in> set (map pair_of (db_prices (fst w))) \<Longrightarrow>
   map pair_of (db_prices (fst (process_loop u True recorded_at store_id items w))) =
   map pair_of (db_prices (fst w))"
proof (induction items arbitrary: w)
  case Nil
  then show ?case by simp
next
  case (Cons item rest)
  show ?case
  proof (cases "accepted u (fst w) item")
    case False
    then show ?thesis
      using Cons.IH [of w] Cons.prems by (simp add: process_loop_skip del: process_loop.simps)
  next
    case True
    let ?db = "upsert recorded_at (matched_id u (fst w) item) store_id item (fst w)"
    have eq: "accepted u ?db = accepted u (fst w)" "matched_id u ?db = matched_id u (fst w)"
      by (rule accepted_products, rule db_products_upsert)
        (rule matched_id_products, rule db_products_upsert)
    from True Cons.prems
    have here: "(matched_id u (fst w) item, store_id) \<in> set (map pair_of (db_prices (fst w)))"
      by simp
    then have same: "map pair_of (db_prices ?db) = map pair_of (db_prices (fst w))"
      by (simp add: db_prices_upsert upsert_price_pairs)
    have "\<forall>item \<in> set rest. accepted u (fst (?db, snd w)) item \<longrightarrow>
      (matched_id u (fst (?db, snd w)) item, store_id) \<in>
        set (map pair_of (db_prices (fst (?db, snd w))))"
      using Cons.prems unfolding fst_conv eq same by simp
    from Cons.IH [OF this] same True show ?thesis
      by (simp add: process_loop_accept del: process_loop.simps)
  qed
qed

lemma one_row_for_pair:
  "distinct (map pair_of rows) \<Longrightarrow> (product_id, store_id) \<in> set (map pair_of rows) \<Longrightarrow>
   length (filter (same_pair product_id store_id) rows) = 1"
proof (induction rows)
  case Nil
  then show ?case by simp
next
  case (Cons r rows)
  show ?case
  proof (cases "same_pair product_id store_id r")
    case True
    then have "pair_of r = (product_id, store_id)"
      by (simp add: same_pair_def pair_of_def)
    with Cons.prems have "\<forall>x \<in> set rows. \<not> same_pair product_id store_id x"
      by (auto simp: same_pair_def pair_of_def image_iff)
    then have "filter (same_pair product_id store_id) rows = []"
      by (simp add: filter_empty_conv)
    with True show ?thesis by simp
  next
    case False
    then have "pair_of r \<noteq> (product_id, store_id)"
      by (auto simp: same_pair_def pair_of_def)
    with False Cons show ?thesis by auto
  qed
qed

lemma process_scraped_data_filter:
  "process_scraped_data u autoflush commit_ok recorded_at db store_id scraped_products =
   process_scraped_data u autoflush commit_ok recorded_at db store_id
     (filter (accepted u db) scraped_products)"
proof -
  have l: "process_loop u autoflush recorded_at store_id scraped_products (db, []) =
    process_loop u autoflush recorded_at store_id (filter (accepted u db) scraped_products)
      (db, [])"
    using process_loop_filter [of u autoflush recorded_at store_id scraped_products "(db, [])"]
    by simp
  show ?thesis
  proof (cases "filter (accepted u db) scraped_products = []")
    case True
    with l have "process_loop u autoflush recorded_at store_id scraped_products (db, []) =
        (db, [])"
      by simp
    with True show ?thesis
      by (simp add: process_scraped_data_def Let_def flush_Nil)
  next
    case False
    then have "scraped_products \<noteq> []"
      by auto
    with False l show ?thesis
      by (simp add: process_scraped_data_def Let_def)
  qed
qed

lemma process_loop_one_pairs:
  assumes "accepted u (fst w) item"
  shows "set (map pair_of (db_prices (flush (process_loop u autoflush recorded_at store_id [item] w)))) =
     insert (matched_id u (fst w) item, store_id) (set (map pair_of (db_prices (flush w))))"
proof -
  from assms obtain db_product where
    m: "find_matching_product u (db_products (fst w)) (d_name item) = Some db_product"
    and n: "d_name item \<noteq> []" "\<not> d_price item \<le> 0"
    by (auto simp: accepted_def)
  obtain db pending where w: "w = (db, pending)"
    by (cases w)
  show ?thesis
  proof (cases "List.find (same_pair (p_id db_product) store_id) (db_prices db)")
    case None
    with m n w show ?thesis
      by (auto simp: matched_id_def add_price_def flush_def Let_def pair_of_def first_price_def)
  next
    case (Some r)
    then have "\<exists>r' \<in> set (db_prices db). same_pair (p_id db_product) store_id r'"
      by (rule find_same_pair_Some)
    then obtain r' where "r' \<in> set (db_prices db)" "pair_of r' = (p_id db_product, store_id)"
      by (auto simp: same_pair_pair_of)
    then have "(p_id db_product, store_id) \<in> set (map pair_of (db_prices db))"
      by force
    with Some m n w show ?thesis
      by (auto simp: matched_id_def flush_def Let_def update_first_map pair_of_update_price)
  qed
qed

lemma process_loop_pairs_flush:
  "set (map pair_of (db_prices (flush (process_loop u autoflush recorded_at store_id items w)))) =
   set (map pair_of (db_prices (flush w))) \<union>
   (\<lambda>item. (matched_id u (fst w) item, store_id)) ` {item \<in> set items. accepted u (fst w) item}"
proof (induction items arbitrary: w)
  case Nil
  then show ?case by simp
next
  case (Cons item rest)
  show ?case
  proof (cases "accepted u (fst w) item")
    case False
    then show ?thesis
      using Cons.IH [of w] by (auto simp: process_loop_skip simp del: process_loop.simps)
  next
    case True
    let ?w = "process_loop u autoflush recorded_at store_id [item] w"
    have eq: "accepted u (fst ?w) = accepted u (fst w)"
      "matched_id u (fst ?w) = matched_id u (fst w)"
      by (rule accepted_products, rule process_loop_products)
        (rule matched_id_products, rule process_loop_products)
    show ?thesis
      unfolding process_loop_Cons [of u autoflush recorded_at store_id item rest w]
        Cons.IH [of ?w] eq process_loop_one_pairs [OF True]
      using True by auto
  qed
qed

section \<open>Facts about saving the results\<close>

lemma save_loop_count:
  "snd (save_loop u autoflush raises store items w saved_count) =
   saved_count + length (filter (\<lambda>item. \<not> raises item) items)"
  by (induction items arbitrary: w saved_count) (auto simp: Let_def split: prod.splits)

lemma save_loop_append:
  "save_loop u autoflush raises store (xs @ ys) w saved_count =
   (case save_loop u autoflush raises store xs w saved_count of
      (w', saved_count') \<Rightarrow> save_loop u autoflush raises store ys w' saved_count')"
  by (induction xs arbitrary: w saved_count) (auto simp: Let_def split: prod.splits)

lemma db_stores_flush: "db_stores (flush w) = db_stores (fst w)"
  by (cases w) (simp add: flush_def)

lemma db_products_flush: "db_products (flush w) = db_products (fst w)"
  by (cases w) (simp add: flush_def)

lemma find_or_create_product_stores:
  "db_stores (fst (snd (find_or_create_product u product_data w))) = db_stores (fst w)"
  by (simp add: find_or_create_product_def Let_def db_stores_flush split: option.splits)

lemma save_loop_stores:
  "db_stores (fst (fst (save_loop u autoflush raises store items w saved_count))) =
   db_stores (fst w)"
proof (induction items arbitrary: w saved_count)
  case Nil
  then show ?case by simp
next
  case (Cons item rest)
  obtain product w1 where f: "find_or_create_product u item w = (product, w1)"
    by (cases "find_or_create_product u item w")
  then have "db_stores (fst w1) = db_stores (fst w)"
    using find_or_create_product_stores [of u item w] by simp
  with f show ?case
    using Cons.IH
    by (cases autoflush; cases w1) (simp_all add: Let_def delete_pair_def add_price_def)
qed

lemma save_store_results_committed:
  "fst (save_store_results u autoflush raises True items store db) =
   flush (fst (save_loop u autoflush raises store items (db, []) 0))"
  by (simp add: save_store_results_def save_store_session_def clean_def commit_def
      split: prod.splits)

lemma save_store_results_count:
  "snd (save_store_results u autoflush raises commit_ok items store db) =
   length (filter (\<lambda>item. \<not> raises item) items)"
  using save_loop_count [of u autoflush raises store items "(db, [])" 0]
  by (auto simp: save_store_results_def save_store_session_def clean_def split: prod.splits)

lemma save_last_item_written:
  assumes "\<not> raises item"
  shows "\<exists>product_id.
     new_price product_id (s_id store) item \<in>
       set (db_prices (fst (save_store_results u autoflush raises True (items @ [item]) store db)))"
proof -
  obtain w n where l: "save_loop u autoflush raises store items (db, []) 0 = (w, n)"
    by (cases "save_loop u autoflush raises store items (db, []) 0")
  obtain product w1 where f: "find_or_create_product u item w = (product, w1)"
    by (cases "find_or_create_product u item w")
  obtain db2 pending where d: "delete_pair (p_id product) (s_id store) w1 = (db2, pending)"
    by (cases "delete_pair (p_id product) (s_id store) w1")
  from l f d assms have "new_price (p_id product) (s_id store) item \<in>
       set (db_prices (fst (save_store_results u autoflush raises True (items @ [item]) store db)))"
    by (simp add: save_store_results_committed save_loop_append Let_def add_price_def flush_def)
  then show ?thesis ..
qed

lemma find_or_create_product_clean:
  "snd w = [] \<Longrightarrow>
   snd (snd (find_or_create_product u product_data w)) = [] \<and>
   db_prices (fst (snd (find_or_create_product u product_data w))) = db_prices (fst w)"
  by (cases w) (simp add: find_or_create_product_def Let_def flush_def split: option.splits)

lemma replace_pair_distinct:
  "distinct (map pair_of rows) \<Longrightarrow>
   distinct (map pair_of
     (filter (\<lambda>r. \<not> same_pair product_id store_id r) rows @
      [new_price product_id store_id item]))"
  by (auto simp: distinct_map_filter pair_of_def same_pair_def new_price_def)

lemma save_loop_distinct:
  "snd w = [] \<Longrightarrow> distinct (map pair_of (db_prices (fst w))) \<Longrightarrow>
   snd (fst (save_loop u True raises store items w saved_count)) = [] \<and>
   distinct (map pair_of (db_prices (fst (fst (save_loop u True raises store items w saved_count)))))"
proof (induction items arbitrary: w saved_count)
  case Nil
  then show ?case by simp
next
  case (Cons item rest)
  obtain product w1 where f: "find_or_create_product u item w = (product, w1)"
    by (cases "find_or_create_product u item w")
  with find_or_create_product_clean [OF Cons.prems(1), of u item]
  have w1: "snd w1 = []" "db_prices (fst w1) = db_prices (fst w)"
    by simp_all
  let ?w2 = "delete_pair (p_id product) (s_id store) w1"
  let ?w3 = "add_price True (new_price (p_id product) (s_id store) item) ?w2"
  from w1 Cons.prems(2) have d2: "snd ?w2 = []" "distinct (map pair_of (db_prices (fst ?w2)))"
    by (simp_all add: delete_pair_def distinct_map_filter)
  have d3: "snd ?w3 = []" "distinct (map pair_of (db_prices (fst ?w3)))"
    using w1 replace_pair_distinct [OF Cons.prems(2), of "p_id product" "s_id store" item]
    by (simp_all add: delete_pair_def add_price_def)
  show ?case
  proof (cases "raises item")
    case True
    with f show ?thesis
      using Cons.IH [OF d2] by (simp add: Let_def)
  next
    case False
    with f show ?thesis
      using Cons.IH [OF d3] by (simp add: Let_def)
  qed
qed

lemma save_store_results_distinct:
  assumes "distinct (map pair_of (db_prices db))"
  shows "distinct (map pair_of
     (db_prices (fst (save_store_results u True raises commit_ok items store db))))"
proof (cases commit_ok)
  case True
  obtain w n where l: "save_loop u True raises store items (db, []) 0 = (w, n)"
    by (cases "save_loop u True raises store items (db, []) 0")
  with save_loop_distinct [of "(db, [])" u raises store items 0] assms
  have "snd w = []" "distinct (map pair_of (db_prices (fst w)))"
    by simp_all
  then have "distinct (map pair_of (db_prices (flush w)))"
    by (cases w) (simp add: flush_def)
  with True l show ?thesis
    by (simp add: save_store_results_committed)
next
  case False
  with assms show ?thesis
    by (simp add: save_store_results_def save_store_session_def clean_def rollback_def
        split: prod.splits)
qed


lemma fold_max_ge: "a \<le> fold max xs a \<and> (\<forall>x \<in> set xs. x \<le> fold max xs (a::nat))"
proof (induction xs arbitrary: a)
  case Nil
  then show ?case by simp
next
  case (Cons x xs)
  from Cons.IH [of "max x a"] show ?case
    by auto
qed

lemma fresh_product_id_new: "fresh_product_id ps \<notin> set (map p_id ps)"
proof
  assume "fresh_product_id ps \<in> set (map p_id ps)"
  then have "fresh_product_id ps \<le> fold max (map p_id ps) 0"
    using fold_max_ge [of 0 "map p_id ps"] by blast
  then show False
    by (simp add: fresh_product_id_def)
qed

lemma find_or_create_product_facts:
  assumes "find_or_create_product u y w = (q, w1)"
    and "distinct (map p_id (db_products (fst w)))"
  shows "p_name q = d_name y"
    and "q \<in> set (db_products (fst w1))"
    and "distinct (map p_id (db_products (fst w1)))"
    and "set (db_products (fst w)) \<subseteq> set (db_products (fst w1))"
    and "db_prices (flush w1) = db_prices (flush w)"
proof -
  have "p_name q = d_name y \<and> q \<in> set (db_products (fst w1)) \<and>
      distinct (map p_id (db_products (fst w1))) \<and>
      set (db_products (fst w)) \<subseteq> set (db_products (fst w1)) \<and>
      db_prices (flush w1) = db_prices (flush w)"
  proof (cases "List.find (\<lambda>p. p_name p = d_name y) (db_products (fst w))")
    case None
    with assms(1) have q: "q = created_product u y (db_products (fst w))"
      and w1: "w1 = ((flush w)\<lparr>db_products := db_products (fst w) @ [q]\<rparr>, [])"
      by (auto simp: find_or_create_product_def Let_def)
    from q have "p_id q \<notin> set (map p_id (db_products (fst w)))"
      using fresh_product_id_new [of "db_products (fst w)"] by (simp add: created_product_def)
    with assms(2) q w1 show ?thesis
      by (cases w) (auto simp: created_product_def flush_def)
  next
    case (Some p)
    with assms(1) have "q = p" "w1 = w"
      by (simp_all add: find_or_create_product_def)
    moreover from Some have "p_name p = d_name y \<and> p \<in> set (db_products (fst w))"
      by (auto simp: find_Some_iff)
    ultimately show ?thesis
      using assms(2) by simp
  qed
  then show "p_name q = d_name y" "q \<in> set (db_products (fst w1))"
    "distinct (map p_id (db_products (fst w1)))"
    "set (db_products (fst w)) \<subseteq> set (db_products (fst w1))"
    "db_prices (flush w1) = db_prices (flush w)"
    by blast+
qed

lemma db_products_delete_pair:
  "db_products (fst (delete_pair product_id store_id w)) = db_products (fst w)"
  by (simp add: delete_pair_def)

lemma db_products_add_price:
  "db_products (fst (add_price autoflush row w)) = db_products (fst w)"
  by (cases w) (simp add: add_price_def)

lemma flush_delete_pair:
  "set (db_prices (flush (delete_pair product_id store_id w))) =
   {r \<in> set (db_prices (fst w)). \<not> same_pair product_id store_id r} \<union> set (snd w)"
  by (cases w) (auto simp: delete_pair_def flush_def)

lemma flush_add_price:
  "set (db_prices (flush (add_price autoflush row w))) = insert row (set (db_prices (flush w)))"
  by (cases w) (auto simp: add_price_def flush_def)

lemma set_flush: "set (db_prices (flush w)) = set (db_prices (fst w)) \<union> set (snd w)"
  by (cases w) (auto simp: flush_def)

lemma save_loop_products_distinct:
  "distinct (map p_id (db_products (fst w))) \<Longrightarrow>
   distinct (map p_id
     (db_products (fst (fst (save_loop u autoflush raises store items w saved_count)))))"
proof (induction items arbitrary: w saved_count)
  case Nil
  then show ?case by simp
next
  case (Cons item rest)
  obtain q w1 where f: "find_or_create_product u item w = (q, w1)"
    by (cases "find_or_create_product u item w")
  note d = find_or_create_product_facts(3) [OF f Cons.prems]
  let ?w2 = "delete_pair (p_id q) (s_id store) w1"
  let ?w3 = "add_price autoflush (new_price (p_id q) (s_id store) item) ?w2"
  from d have d2: "distinct (map p_id (db_products (fst ?w2)))"
    by (simp add: db_products_delete_pair)
  then have d3: "distinct (map p_id (db_products (fst ?w3)))"
    by (simp add: db_products_add_price)
  from f show ?case
    using Cons.IH [OF d2] Cons.IH [OF d3] by (simp add: Let_def)
qed

lemma save_loop_keeps_row:
  assumes "distinct (map p_id (db_products (fst w)))"
    and "p \<in> set (db_products (fst w))"
    and "r \<in> set (db_prices (flush w))"
    and "pr_product_id r = p_id p"
    and "\<forall>y \<in> set ys. d_name y \<noteq> p_name p"
  shows "r \<in> set (db_prices (flush (fst (save_loop u autoflush raises store ys w saved_count))))"
  using assms
proof (induction ys arbitrary: w saved_count)
  case Nil
  then show ?case by simp
next
  case (Cons y ys)
  obtain q w1 where f: "find_or_create_product u y w = (q, w1)"
    by (cases "find_or_create_product u y w")
  note facts = find_or_create_product_facts [OF f Cons.prems(1)]
  from facts(4) Cons.prems(2) have p1: "p \<in> set (db_products (fst w1))"
    by blast
  from facts(1) Cons.prems(5) have "q \<noteq> p"
    by auto
  with facts(2,3) p1 have ne: "p_id q \<noteq> p_id p"
    by (auto simp: distinct_map inj_on_def)
  let ?w2 = "delete_pair (p_id q) (s_id store) w1"
  let ?w3 = "add_price autoflush (new_price (p_id q) (s_id store) y) ?w2"
  from Cons.prems(3) facts(5) have "r \<in> set (db_prices (flush w1))"
    by simp
  then have "r \<in> set (db_prices (fst w1)) \<union> set (snd w1)"
    by (simp only: set_flush)
  with ne Cons.prems(4) have r2: "r \<in> set (db_prices (flush ?w2))"
    by (auto simp: flush_delete_pair same_pair_def)
  then have r3: "r \<in> set (db_prices (flush ?w3))"
    by (simp add: flush_add_price)
  from facts(3) p1 have i2: "distinct (map p_id (db_products (fst ?w2)))"
    "p \<in> set (db_products (fst ?w2))"
    by (simp_all add: db_products_delete_pair)
  then have i3: "distinct (map p_id (db_products (fst ?w3)))"
    "p \<in> set (db_products (fst ?w3))"
    by (simp_all add: db_products_add_price)
  from Cons.prems(5) have rest: "\<forall>y \<in> set ys. d_name y \<noteq> p_name p"
    by simp
  show ?case
  proof (cases "raises y")
    case True
    with f show ?thesis
      using Cons.IH [OF i2 r2 Cons.prems(4) rest] by (simp add: Let_def)
  next
    case False
    with f show ?thesis
      using Cons.IH [OF i3 r3 Cons.prems(4) rest] by (simp add: Let_def)
  qed
qed

lemma save_isolates_raising_items:
  assumes "distinct (map p_id (db_products db))"
    and "\<not> raises item"
    and "\<forall>y \<in> set ys. d_name y \<noteq> d_name item"
  shows "\<exists>product_id.
     new_price product_id (s_id store) item \<in>
       set (db_prices
         (fst (save_store_results u autoflush raises True (xs @ item # ys) store db)))"
proof -
  obtain w n where l: "save_loop u autoflush raises store xs (db, []) 0 = (w, n)"
    by (cases "save_loop u autoflush raises store xs (db, []) 0")
  then have d: "distinct (map p_id (db_products (fst w)))"
    using save_loop_products_distinct [of "(db, [])" u autoflush raises store xs 0] assms(1)
    by simp
  obtain p w1 where f: "find_or_create_product u item w = (p, w1)"
    by (cases "find_or_create_product u item w")
  note facts = find_or_create_product_facts [OF f d]
  let ?r = "new_price (p_id p) (s_id store) item"
  let ?w2 = "delete_pair (p_id p) (s_id store) w1"
  let ?w3 = "add_price autoflush ?r ?w2"
  have i3: "distinct (map p_id (db_products (fst ?w3)))" "p \<in> set (db_products (fst ?w3))"
    using facts(2,3) by (simp_all add: db_products_delete_pair db_products_add_price)
  have r3: "?r \<in> set (db_prices (flush ?w3))"
    by (simp add: flush_add_price)
  have pr: "pr_product_id ?r = p_id p"
    by (simp add: new_price_def)
  from assms(3) facts(1) have rest: "\<forall>y \<in> set ys. d_name y \<noteq> p_name p"
    by simp
  have "?r \<in> set (db_prices (flush (fst (save_loop u autoflush raises store ys ?w3 (Suc n)))))"
    by (rule save_loop_keeps_row [OF i3 r3 pr rest])
  with l f assms(2)
  have "?r \<in> set (db_prices
         (fst (save_store_results u autoflush raises True (xs @ item # ys) store db)))"
    by (simp add: save_store_results_committed save_loop_append Let_def)
  then show ?thesis ..
qed

section \<open>The ledger claims\<close>

lemmas ledger_eval =
  process_scraped_data_def accepted_def matched_id_def add_price_def flush_def Let_def
  history_entry_def first_price_def update_price_def same_pair_def pair_of_def pair_history_def
  scraped_item_def catalog_db_def cucumbers_def tomatoes_def store_S_def stamp_def
  str_def lower_def ascii_lower_def strip_def isspace_def arabic_def
  ledger_inv_def ledger_inv_in_full_def agrees_with_history_def agrees_in_full_def
  save_store_results_def save_store_session_def clean_def commit_def rollback_def
  find_or_create_product_def created_product_def fresh_product_id_def delete_pair_def
  new_price_def float_or_none_def

lemma db_price_history_flush: "db_price_history (flush w) = db_price_history (fst w)"
  by (cases w) (simp add: flush_def)

lemma process_scraped_data_history:
  "db_price_history (process_scraped_data u autoflush True recorded_at db store_id items) =
   db_price_history db @
   map (\<lambda>(k, item).
          history_entry (recorded_at (length (db_price_history db) + k))
            (matched_id u db item) store_id item)
     (enumerate 0 (filter (accepted u db) items))"
  using process_loop_history [of u autoflush recorded_at store_id items "(db, [])"]
  by (simp add: process_scraped_data_def Let_def db_price_history_flush)

lemma process_scraped_data_pair_history:
  "length (pair_history product_id store_id
     (db_price_history (process_scraped_data u autoflush True recorded_at db store_id items))) =
   length (pair_history product_id store_id (db_price_history db)) +
   length (filter (\<lambda>item. accepted u db item \<and> matched_id u db item = product_id) items)"
  using process_loop_pair_history [of product_id store_id u autoflush recorded_at items "(db, [])"]
  by (simp add: process_scraped_data_def Let_def db_price_history_flush)

lemma process_scraped_data_pairs:
  "set (map pair_of
     (db_prices (process_scraped_data u autoflush True recorded_at db store_id items))) =
   set (map pair_of (db_prices db)) \<union>
   (\<lambda>item. (matched_id u db item, store_id)) ` {item \<in> set items. accepted u db item}"
  using process_loop_pairs_flush [of u autoflush recorded_at store_id items "(db, [])"]
  by (simp add: process_scraped_data_def Let_def flush_Nil)

text \<open>
  Claim C2, as stated, fails.

  The timestamp: \<open>process_scraped_data\<close> gives the row the item's \<open>scraped_at\<close> and
  leaves the \<open>recorded_at\<close> of the history record to the column default; for an item
  captured at 1000 and a history record inserted at 2000 the two differ.

  One row for a pair: in a session that does not autoflush, the query does not see the
  row that the first of two items for "Cucumbers" added, and the batch leaves two rows
  for the pair (10, 7).

  The most recent record: when the column default gives the two history records of that
  batch the same time, no record is the most recent one by time; the row has the price
  of the second, 11, and not that of the first, 25/2.

  \<open>_save_store_results\<close> writes the row and no history record.
\<close>

theorem current_price_timestamp_counterexample:
  "ledger_inv_in_full catalog_db \<and>
   map pr_scraped_at
     (db_prices (process_scraped_data arabic True True (stamp 2000) catalog_db 7
        [scraped_item ''Organic Cucumber'' (25 / 2) 1000])) = [1000] \<and>
   map h_recorded_at
     (db_price_history (process_scraped_data arabic True True (stamp 2000) catalog_db 7
        [scraped_item ''Organic Cucumber'' (25 / 2) 1000])) = [2000] \<and>
   \<not> ledger_inv_in_full
        (process_scraped_data arabic True True (stamp 2000) catalog_db 7
           [scraped_item ''Organic Cucumber'' (25 / 2) 1000]) \<and>
   map pair_of
     (db_prices (process_scraped_data arabic False True (stamp 2000) catalog_db 7
        [scraped_item ''Organic Cucumber'' (25 / 2) 1000,
         scraped_item ''Cucumber 1kg'' 11 1000])) = [(10, 7), (10, 7)] \<and>
   map (\<lambda>h. (h_product_id h, h_store_id h, h_price h, h_recorded_at h))
     (db_price_history (process_scraped_data arabic True True (stamp 2000) catalog_db 7
        [scraped_item ''Organic Cucumber'' (25 / 2) 1000,
         scraped_item ''Cucumber 1kg'' 11 1000])) =
     [(10, 7, 25 / 2, 2000), (10, 7, 11, 2000)] \<and>
   map (\<lambda>r. (pr_product_id r, pr_store_id r, pr_price r))
     (db_prices (process_scraped_data arabic True True (stamp 2000) catalog_db 7
        [scraped_item ''Organic Cucumber'' (25 / 2) 1000,
         scraped_item ''Cucumber 1kg'' 11 1000])) = [(10, 7, 11)] \<and>
   map pair_of
     (db_prices (fst (save_store_results arabic True (\<lambda>item. False) True
        [scraped_item ''Organic Cucumber'' (25 / 2) 1000] store_S catalog_db))) = [(21, 7)] \<and>
   db_price_history (fst (save_store_results arabic True (\<lambda>item. False) True
        [scraped_item ''Organic Cucumber'' (25 / 2) 1000] store_S catalog_db)) = []"
  by (simp add: ledger_eval)

text \<open>
  Claim C2, amended. In a session that autoflushes, and with a column default for
  \<open>recorded_at\<close> that does not go back, the ledger invariant holds in a ledger without
  rows and is kept by every run of \<open>process_scraped_data\<close>, whether its commit
  succeeds or not: at most one current-price row for every pair of product and store,
  the row's price and availability being those of the most recent history record of
  the pair, which among records of the same \<open>recorded_at\<close> is the one inserted last.
  The timestamps are not compared: the row has the item's capture time, the history
  record the time of its insertion. \<open>_save_store_results\<close>, in a session that
  autoflushes, keeps the first half, at most one row for every pair.
\<close>

theorem ledger_invariant_kept:
  "ledger_inv \<lparr>db_stores = stores, db_products = catalog, db_prices = [],
                db_price_history = []\<rparr> \<and>
   (ledger_inv db \<and> clock_not_behind recorded_at db \<longrightarrow>
      ledger_inv (process_scraped_data u True commit_ok recorded_at db store_id scraped_products) \<and>
      clock_not_behind recorded_at
        (process_scraped_data u True commit_ok recorded_at db store_id scraped_products)) \<and>
   (distinct (map pair_of (db_prices db)) \<longrightarrow>
      distinct (map pair_of
        (db_prices (fst (save_store_results u True raises commit_ok scraped_products store db)))))"
  using process_scraped_data_invariant [of db recorded_at u commit_ok store_id scraped_products]
    save_store_results_distinct [of db u raises commit_ok scraped_products store]
  by (simp add: ledger_inv_def)

text \<open>
  Two runs from the catalog without rows, the first stamped 2000 and the second 3000:
  the pair (10, 7) has one row, with the price of the second run, and the invariant
  holds after each.
\<close>

theorem ledger_invariant_kept_witness:
  "ledger_inv catalog_db \<and>
   clock_not_behind (stamp 2000) catalog_db \<and>
   ledger_inv (process_scraped_data arabic True True (stamp 2000) catalog_db 7
     [scraped_item ''Organic Cucumber'' (25 / 2) 1000,
      scraped_item ''Cucumber 1kg'' 11 1000,
      scraped_item ''Unknown Widget'' (999 / 100) 1000]) \<and>
   map (\<lambda>r. (pr_product_id r, pr_store_id r, pr_price r))
     (db_prices (process_scraped_data arabic True True (stamp 2000) catalog_db 7
        [scraped_item ''Organic Cucumber'' (25 / 2) 1000,
         scraped_item ''Cucumber 1kg'' 11 1000,
         scraped_item ''Unknown Widget'' (999 / 100) 1000])) = [(10, 7, 11)] \<and>
   distinct (map pair_of (db_prices catalog_db)) \<and>
   distinct (map pair_of
     (db_prices (fst (save_store_results arabic True (\<lambda>item. False) True
        [scraped_item ''Organic Cucumber'' (25 / 2) 1000,
         scraped_item ''Organic Cucumber'' 11 1000] store_S catalog_db))))"
proof -
  let ?items = "[scraped_item ''Organic Cucumber'' (25 / 2) 1000,
      scraped_item ''Cucumber 1kg'' 11 1000,
      scraped_item ''Unknown Widget'' (999 / 100) 1000]"
  have inv: "ledger_inv catalog_db"
    by (simp add: ledger_eval)
  have clock: "clock_not_behind (stamp 2000) catalog_db"
    by (simp add: clock_not_behind_def stamp_def catalog_db_def)
  have d: "distinct (map pair_of (db_prices catalog_db))"
    by (simp add: catalog_db_def)
  have rows: "map (\<lambda>r. (pr_product_id r, pr_store_id r, pr_price r))
     (db_prices (process_scraped_data arabic True True (stamp 2000) catalog_db 7 ?items)) =
     [(10, 7, 11)]"
    by (simp add: ledger_eval)
  note t = ledger_invariant_kept
    [where db = catalog_db and recorded_at = "stamp 2000" and u = arabic and commit_ok = True
       and store_id = 7 and scraped_products = ?items]
  from t inv clock have one:
    "ledger_inv (process_scraped_data arabic True True (stamp 2000) catalog_db 7 ?items)"
    by blast
  note s = ledger_invariant_kept
    [where db = catalog_db and u = arabic and commit_ok = True and raises = "\<lambda>item. False"
       and store = store_S
       and scraped_products = "[scraped_item ''Organic Cucumber'' (25 / 2) 1000,
         scraped_item ''Organic Cucumber'' 11 1000]"]
  from s d have two: "distinct (map pair_of
     (db_prices (fst (save_store_results arabic True (\<lambda>item. False) True
        [scraped_item ''Organic Cucumber'' (25 / 2) 1000,
         scraped_item ''Organic Cucumber'' 11 1000] store_S catalog_db))))"
    by blast
  from inv clock one rows d two show ?thesis
    by blast
qed

text \<open>
  Claim C3, as stated, fails. One history record is appended for every item that is
  processed, not for every pair: a batch with two items that both match "Cucumbers"
  leaves, after a single invocation in a session that autoflushes, one current-price
  row for the pair (10, 7) and two new history records for it. In a session that does
  not autoflush the second item does not overwrite the row of the first: the query
  does not see it, and the batch leaves two rows for the pair.
\<close>

theorem two_history_records_for_one_pair_counterexample:
  "length (filter (same_pair 10 7)
     (db_prices (process_scraped_data arabic True True (stamp 2000) catalog_db 7
        [scraped_item ''Organic Cucumber'' (25 / 2) 1000,
         scraped_item ''Cucumber 1kg'' 11 1000]))) = 1 \<and>
   length (pair_history 10 7
     (db_price_history (process_scraped_data arabic True True (stamp 2000) catalog_db 7
        [scraped_item ''Organic Cucumber'' (25 / 2) 1000,
         scraped_item ''Cucumber 1kg'' 11 1000]))) = 2 \<and>
   length (filter (same_pair 10 7)
     (db_prices (process_scraped_data arabic False True (stamp 2000) catalog_db 7
        [scraped_item ''Organic Cucumber'' (25 / 2) 1000,
         scraped_item ''Cucumber 1kg'' 11 1000]))) = 2"
  by (simp add: ledger_eval)

text \<open>
  Claim C3, amended. In a session that autoflushes, \<open>process_scraped_data\<close> handles
  an item that it processes (one with a name, a positive price and a catalog match) as
  the upsert of the specification: it overwrites the row of the pair in place when
  there is one (the rows keep their pairs and their order; the row of the pair gets the
  item's price, availability and capture time) and appends a row otherwise, and it
  appends one history record. A committed run appends one history record for every
  processed item, with or without autoflush: a pair gets as many new records as the
  batch has processed items matched to its product. Hence, in a session that
  autoflushes and from a ledger with at most one row for every pair, processing the same
  batch twice adds no row the second time, leaves exactly one row for the pair of
  every processed item, and appends as many history records in each invocation as the
  batch has processed items.
\<close>

theorem upsert_overwrites_and_history_grows:
  "map pair_of (upsert_price product_id store_id item rows) =
     (if (product_id, store_id) \<in> set (map pair_of rows) then map pair_of rows
      else map pair_of rows @ [(product_id, store_id)]) \<and>
   (distinct (map pair_of rows) \<longrightarrow>
      (\<forall>r \<in> set (upsert_price product_id store_id item rows).
         if pair_of r = (product_id, store_id)
         then pr_price r = d_price item \<and> pr_is_available r = d_is_available item \<and>
              pr_scraped_at r = d_scraped_at item
         else r \<in> set rows)) \<and>
   (accepted u (fst w) item \<longrightarrow>
      process_loop u True recorded_at store_id (item # rest) w =
      process_loop u True recorded_at store_id rest
        (upsert recorded_at (matched_id u (fst w) item) store_id item (fst w), snd w)) \<and>
   db_price_history
     (process_scraped_data u autoflush True recorded_at db store_id scraped_products) =
     db_price_history db @
     map (\<lambda>(k, item).
            history_entry (recorded_at (length (db_price_history db) + k))
              (matched_id u db item) store_id item)
       (enumerate 0 (filter (accepted u db) scraped_products)) \<and>
   length (pair_history product_id store_id
     (db_price_history
        (process_scraped_data u autoflush True recorded_at db store_id scraped_products))) =
     length (pair_history product_id store_id (db_price_history db)) +
     length (filter (\<lambda>item. accepted u db item \<and> matched_id u db item = product_id)
       scraped_products) \<and>
   (distinct (map pair_of (db_prices db)) \<longrightarrow>
      map pair_of
        (db_prices (process_scraped_data u True True recorded_at'
           (process_scraped_data u True True recorded_at db store_id scraped_products)
           store_id scraped_products)) =
      map pair_of
        (db_prices (process_scraped_data u True True recorded_at db store_id scraped_products)) \<and>
      (\<forall>item \<in> set scraped_products. accepted u db item \<longrightarrow>
         length (filter (same_pair (matched_id u db item) store_id)
           (db_prices (process_scraped_data u True True recorded_at'
              (process_scraped_data u True True recorded_at db store_id scraped_products)
              store_id scraped_products))) = 1) \<and>
      length (db_price_history (process_scraped_data u True True recorded_at'
           (process_scraped_data u True True recorded_at db store_id scraped_products)
           store_id scraped_products)) =
      length (db_price_history
           (process_scraped_data u True True recorded_at db store_id scraped_products)) +
      length (filter (accepted u db) scraped_products))"
proof -
  let ?w1 = "process_loop u True recorded_at store_id scraped_products (db, [])"
  let ?db1 = "fst ?w1"
  let ?w2 = "process_loop u True recorded_at' store_id scraped_products (?db1, [])"
  let ?db2 = "fst ?w2"
  have products: "db_products ?db1 = db_products db"
    using process_loop_products [of u True recorded_at store_id scraped_products "(db, [])"]
    by simp
  have acc: "accepted u ?db1 = accepted u db" and mid: "matched_id u ?db1 = matched_id u db"
    using products by (rule accepted_products, rule matched_id_products)
  have rows: "\<forall>r \<in> set (upsert_price product_id store_id item rows).
         if pair_of r = (product_id, store_id)
         then pr_price r = d_price item \<and> pr_is_available r = d_is_available item \<and>
              pr_scraped_at r = d_scraped_at item
         else r \<in> set rows" if "distinct (map pair_of rows)"
    using upsert_price_row [OF that] by blast
  have step: "process_loop u True recorded_at store_id (item # rest) w =
      process_loop u True recorded_at store_id rest
        (upsert recorded_at (matched_id u (fst w) item) store_id item (fst w), snd w)"
    if "accepted u (fst w) item"
    using that by (rule process_loop_accept)
  have present: "\<forall>item \<in> set scraped_products. accepted u (fst (?db1, [])) item \<longrightarrow>
      (matched_id u (fst (?db1, [])) item, store_id) \<in>
        set (map pair_of (db_prices (fst (?db1, []))))"
    unfolding fst_conv acc mid
    using process_loop_pairs_set [of u recorded_at store_id scraped_products "(db, [])"]
    by auto
  have same: "map pair_of (db_prices ?db2) = map pair_of (db_prices ?db1)"
    using process_loop_pairs_present [OF present, of recorded_at'] by simp
  have one: "length (filter (same_pair (matched_id u db item) store_id) (db_prices ?db2)) = 1"
    if d: "distinct (map pair_of (db_prices db))" and i: "item \<in> set scraped_products"
      and a: "accepted u db item" for item
  proof (rule one_row_for_pair)
    have "distinct (map pair_of (db_prices ?db1))"
      using process_loop_distinct [of "(db, [])" u recorded_at store_id scraped_products] d
      by simp
    then show "distinct (map pair_of (db_prices ?db2))"
      using process_loop_distinct [of "(?db1, [])" u recorded_at' store_id scraped_products]
      by simp
    from present i a
    show "(matched_id u db item, store_id) \<in> set (map pair_of (db_prices ?db2))"
      unfolding same fst_conv acc mid by blast
  qed
  have grow: "length (db_price_history ?db2) =
      length (db_price_history ?db1) + length (filter (accepted u db) scraped_products)"
    using process_loop_history_length [of u True recorded_at' store_id scraped_products
        "(?db1, [])"]
    by (simp add: acc)
  show ?thesis
    unfolding process_scraped_data_committed
    using rows step same one grow
      process_scraped_data_history [of u autoflush recorded_at db store_id scraped_products]
      process_scraped_data_pair_history
        [of product_id store_id u autoflush recorded_at db scraped_products]
    by (simp add: upsert_price_pairs del: process_loop.simps)
qed

text \<open>
  The batch of "Organic Cucumber" and "Unknown Widget", processed twice from the catalog
  without rows: the first item is processed and written under product 10, and after the
  second run the pair (10, 7) has one row.
\<close>

theorem upsert_overwrites_and_history_grows_witness:
  "distinct (map pair_of (db_prices catalog_db)) \<and>
   accepted arabic catalog_db (scraped_item ''Organic Cucumber'' (25 / 2) 1000) \<and>
   matched_id arabic catalog_db (scraped_item ''Organic Cucumber'' (25 / 2) 1000) = 10 \<and>
   \<not> accepted arabic catalog_db (scraped_item ''Unknown Widget'' (999 / 100) 1000) \<and>
   length (filter (same_pair 10 7)
     (db_prices (process_scraped_data arabic True True (stamp 3000)
        (process_scraped_data arabic True True (stamp 2000) catalog_db 7
           [scraped_item ''Organic Cucumber'' (25 / 2) 1000,
            scraped_item ''Unknown Widget'' (999 / 100) 1000])
        7
        [scraped_item ''Organic Cucumber'' (25 / 2) 1000,
         scraped_item ''Unknown Widget'' (999 / 100) 1000]))) = 1 \<and>
   map h_recorded_at
     (db_price_history (process_scraped_data arabic True True (stamp 3000)
        (process_scraped_data arabic True True (stamp 2000) catalog_db 7
           [scraped_item ''Organic Cucumber'' (25 / 2) 1000,
            scraped_item ''Unknown Widget'' (999 / 100) 1000])
        7
        [scraped_item ''Organic Cucumber'' (25 / 2) 1000,
         scraped_item ''Unknown Widget'' (999 / 100) 1000])) = [2000, 3000]"
proof -
  let ?c = "scraped_item ''Organic Cucumber'' (25 / 2) 1000"
  let ?items = "[scraped_item ''Organic Cucumber'' (25 / 2) 1000,
                 scraped_item ''Unknown Widget'' (999 / 100) 1000]"
  have d: "distinct (map pair_of (db_prices catalog_db))"
    by (simp add: catalog_db_def)
  have a: "accepted arabic catalog_db ?c"
    by (simp add: ledger_eval)
  have m: "matched_id arabic catalog_db ?c = 10"
    by (simp add: ledger_eval)
  have n: "\<not> accepted arabic catalog_db (scraped_item ''Unknown Widget'' (999 / 100) 1000)"
    by (simp add: ledger_eval)
  have h: "map h_recorded_at
     (db_price_history (process_scraped_data arabic True True (stamp 3000)
        (process_scraped_data arabic True True (stamp 2000) catalog_db 7 ?items) 7 ?items)) =
     [2000, 3000]"
    by (simp add: ledger_eval)
  have "\<forall>item \<in> set ?items. accepted arabic catalog_db item \<longrightarrow>
         length (filter (same_pair (matched_id arabic catalog_db item) 7)
           (db_prices (process_scraped_data arabic True True (stamp 3000)
              (process_scraped_data arabic True True (stamp 2000) catalog_db 7 ?items)
              7 ?items))) = 1"
    using upsert_overwrites_and_history_grows
      [where db = catalog_db and scraped_products = ?items and recorded_at = "stamp 2000"
         and recorded_at' = "stamp 3000" and store_id = 7 and u = arabic]
      d
    by blast
  with a have "length (filter (same_pair (matched_id arabic catalog_db ?c) 7)
      (db_prices (process_scraped_data arabic True True (stamp 3000)
         (process_scraped_data arabic True True (stamp 2000) catalog_db 7 ?items) 7 ?items))) = 1"
    by simp
  with d a m n h show ?thesis
    by simp
qed

text \<open>
  Claim C7, as stated, fails on the save path of the scraper manager.
  \<open>_save_store_results\<close> drops no item: for "Unknown Widget" at price 0, which no
  catalog entry matches, it creates the product (id 21) and writes a current-price row
  with price 0, and counts the item as saved.
\<close>

theorem save_store_results_keeps_every_item_counterexample:
  "db_prices catalog_db = [] \<and>
   map (\<lambda>r. (pr_product_id r, pr_store_id r, pr_price r))
     (db_prices (fst (save_store_results arabic True (\<lambda>item. False) True
        [scraped_item ''Unknown Widget'' 0 1000] store_S catalog_db))) = [(21, 7, 0)] \<and>
   snd (save_store_results arabic True (\<lambda>item. False) True
        [scraped_item ''Unknown Widget'' 0 1000] store_S catalog_db) = 1"
  by (simp add: ledger_eval)

text \<open>
  Claim C7, amended. In \<open>DataProcessor.process_scraped_data\<close> an item with an empty
  name, a non-positive price or no catalog match is dropped: the loop goes on with the
  rest as if the item were not there, the run equals the run on the batch without the
  dropped items, and a batch of dropped items only leaves the database as it was. The
  save path of the scraper manager, \<open>_save_store_results\<close>, drops no item: when no
  item raises, every item is counted as saved, and the last item of a committed batch
  has its row whatever its name and price.
\<close>

theorem process_scraped_data_drops_invalid_items:
  "(d_name item = [] \<or> d_price item \<le> 0 \<or>
      find_matching_product u (db_products (fst w)) (d_name item) = None \<longrightarrow>
      \<not> accepted u (fst w) item \<and>
      process_loop u autoflush recorded_at store_id (item # rest) w =
        process_loop u autoflush recorded_at store_id rest w) \<and>
   process_scraped_data u autoflush commit_ok recorded_at db store_id scraped_products =
     process_scraped_data u autoflush commit_ok recorded_at db store_id
       (filter (accepted u db) scraped_products) \<and>
   ((\<forall>item \<in> set scraped_products. \<not> accepted u db item) \<longrightarrow>
      process_scraped_data u autoflush commit_ok recorded_at db store_id scraped_products = db) \<and>
   snd (save_store_results u autoflush (\<lambda>item. False) commit_ok scraped_products store db) =
     length scraped_products \<and>
   (\<exists>product_id.
      new_price product_id (s_id store) item \<in>
        set (db_prices (fst (save_store_results u autoflush (\<lambda>item. False) True
               (scraped_products @ [item]) store db))))"
proof -
  have skip: "\<not> accepted u (fst w) item \<and>
      process_loop u autoflush recorded_at store_id (item # rest) w =
        process_loop u autoflush recorded_at store_id rest w"
    if "d_name item = [] \<or> d_price item \<le> 0 \<or>
      find_matching_product u (db_products (fst w)) (d_name item) = None"
  proof -
    from that have "\<not> accepted u (fst w) item"
      by (auto simp: accepted_def)
    then show ?thesis
      by (simp add: process_loop_skip del: process_loop.simps)
  qed
  have none:
    "process_scraped_data u autoflush commit_ok recorded_at db store_id scraped_products = db"
    if "\<forall>item \<in> set scraped_products. \<not> accepted u db item"
  proof -
    from that have "filter (accepted u db) scraped_products = []"
      by (simp add: filter_empty_conv)
    then show ?thesis
      using process_scraped_data_filter
        [of u autoflush commit_ok recorded_at db store_id scraped_products]
      by (simp add: process_scraped_data_def)
  qed
  have last: "\<exists>product_id.
      new_price product_id (s_id store) item \<in>
        set (db_prices (fst (save_store_results u autoflush (\<lambda>item. False) True
               (scraped_products @ [item]) store db)))"
    by (rule save_last_item_written) simp
  from skip none last show ?thesis
    using process_scraped_data_filter
      [of u autoflush commit_ok recorded_at db store_id scraped_products]
    by (simp add: save_store_results_count del: process_loop.simps)
qed

text \<open>
  "Unknown Widget" has no catalog match and the second item has the price 0: the batch
  of the two leaves the catalog without rows as it was.
\<close>

theorem process_scraped_data_drops_invalid_items_witness:
  "find_matching_product arabic (db_products (fst (catalog_db, [])))
     (d_name (scraped_item ''Unknown Widget'' (999 / 100) 1000)) = None \<and>
   d_price (scraped_item ''Cucumber'' 0 1000) \<le> 0 \<and>
   process_scraped_data arabic True True (stamp 2000) catalog_db 7
     [scraped_item ''Unknown Widget'' (999 / 100) 1000, scraped_item ''Cucumber'' 0 1000] =
   catalog_db"
proof -
  let ?w = "scraped_item ''Unknown Widget'' (999 / 100) 1000"
  let ?z = "scraped_item ''Cucumber'' 0 1000"
  have w: "find_matching_product arabic (db_products (fst (catalog_db, []))) (d_name ?w) = None"
    by (simp add: ledger_eval)
  have z: "d_price ?z \<le> 0"
    by (simp add: scraped_item_def)
  have "\<not> accepted arabic (fst (catalog_db, [])) ?w"
    using process_scraped_data_drops_invalid_items
      [where item = ?w and w = "(catalog_db, [])" and u = arabic and autoflush = True
         and recorded_at = "stamp 2000" and store_id = 7 and rest = "[?z]"
         and db = catalog_db and commit_ok = True and scraped_products = "[?w, ?z]"
         and store = store_S] w
    by simp
  moreover have "\<not> accepted arabic (fst (catalog_db, [])) ?z"
    using process_scraped_data_drops_invalid_items
      [where item = ?z and w = "(catalog_db, [])" and u = arabic and autoflush = True
         and recorded_at = "stamp 2000" and store_id = 7 and rest = "[]"
         and db = catalog_db and commit_ok = True and scraped_products = "[?w, ?z]"
         and store = store_S] z
    by simp
  ultimately have "\<forall>item \<in> set [?w, ?z]. \<not> accepted arabic catalog_db item"
    by simp
  then have "process_scraped_data arabic True True (stamp 2000) catalog_db 7 [?w, ?z] =
      catalog_db"
    using process_scraped_data_drops_invalid_items
      [where db = catalog_db and scraped_products = "[?w, ?z]" and commit_ok = True
         and recorded_at = "stamp 2000" and store_id = 7 and u = arabic and autoflush = True
         and item = ?w and w = "(catalog_db, [])" and rest = "[]" and store = store_S]
    by blast
  with w z show ?thesis
    by blast
qed

text \<open>
  Claim C8, as stated, fails: \<open>process_scraped_data\<close> commits the writes of a batch
  together, once, after its loop. When that commit fails (the write for one pair is
  refused) the rollback undoes the writes for every pair of the batch, here those for
  "Cucumbers" and for "Tomatoes", which a commit that succeeds writes; the function
  returns nothing, and no count.
\<close>

theorem failed_commit_loses_every_pair_counterexample:
  "map pair_of
     (db_prices (process_scraped_data arabic True True (stamp 2000) catalog_db 7
        [scraped_item ''Organic Cucumber'' (25 / 2) 1000,
         scraped_item ''Tomato 1kg'' 8 1000])) = [(10, 7), (20, 7)] \<and>
   db_prices (process_scraped_data arabic True False (stamp 2000) catalog_db 7
     [scraped_item ''Organic Cucumber'' (25 / 2) 1000,
      scraped_item ''Tomato 1kg'' 8 1000]) = [] \<and>
   db_price_history (process_scraped_data arabic True False (stamp 2000) catalog_db 7
     [scraped_item ''Organic Cucumber'' (25 / 2) 1000,
      scraped_item ''Tomato 1kg'' 8 1000]) = []"
  by (simp add: ledger_eval)

text \<open>
  Claim C8, amended. \<open>process_scraped_data\<close> writes the pairs of a batch together:
  when its commit fails, the database is as before the call, for every pair; when it
  succeeds, the pair of every processed item has a row. It returns no count.
  \<open>_save_store_results\<close> isolates an item whose row cannot be built (a value that
  \<open>float(...)\<close> rejects): when the commit succeeds, the returned count is the number
  of the items that did not raise, and an item that did not raise has its row in the
  table, whichever other items raised, when no later item of the batch has its name
  (the product ids being distinct).
\<close>

theorem failed_commit_rolls_back_whole_batch:
  "process_scraped_data u autoflush False recorded_at db store_id scraped_products = db \<and>
   set (map pair_of
     (db_prices (process_scraped_data u autoflush True recorded_at db store_id
        scraped_products))) =
     set (map pair_of (db_prices db)) \<union>
     (\<lambda>item. (matched_id u db item, store_id)) `
       {item \<in> set scraped_products. accepted u db item} \<and>
   snd (save_store_results u autoflush raises True scraped_products store db) =
     length (filter (\<lambda>item. \<not> raises item) scraped_products) \<and>
   (distinct (map p_id (db_products db)) \<and> \<not> raises item \<and>
    (\<forall>y \<in> set ys. d_name y \<noteq> d_name item) \<longrightarrow>
      (\<exists>product_id.
         new_price product_id (s_id store) item \<in>
           set (db_prices
             (fst (save_store_results u autoflush raises True (xs @ item # ys) store db)))))"
  using save_isolates_raising_items [of db raises item ys store u autoflush xs]
    process_scraped_data_pairs [of u autoflush recorded_at db store_id scraped_products]
  by (simp add: process_scraped_data_rollback save_store_results_count)

text \<open>
  A batch in which building the row of "Tomato 1kg" raises, between "Organic Cucumber"
  and "Cucumber 1kg": the count is 2, the two other items have their rows (under the
  products 21 and 23 that the save creates for their names), and the product 22 that
  was created for the raising item stays, without a row.
\<close>

theorem failed_commit_rolls_back_whole_batch_witness:
  "process_scraped_data arabic True False (stamp 2000) catalog_db 7
     [scraped_item ''Organic Cucumber'' (25 / 2) 1000,
      scraped_item ''Tomato 1kg'' 8 1000] = catalog_db \<and>
   distinct (map p_id (db_products catalog_db)) \<and>
   snd (save_store_results arabic True (\<lambda>item. d_name item = str ''Tomato 1kg'') True
     [scraped_item ''Organic Cucumber'' (25 / 2) 1000,
      scraped_item ''Tomato 1kg'' 8 1000,
      scraped_item ''Cucumber 1kg'' 11 1000] store_S catalog_db) = 2 \<and>
   (\<exists>product_id.
      new_price product_id (s_id store_S) (scraped_item ''Organic Cucumber'' (25 / 2) 1000) \<in>
        set (db_prices
          (fst (save_store_results arabic True (\<lambda>item. d_name item = str ''Tomato 1kg'') True
             ([] @ scraped_item ''Organic Cucumber'' (25 / 2) 1000 #
                [scraped_item ''Tomato 1kg'' 8 1000, scraped_item ''Cucumber 1kg'' 11 1000])
             store_S catalog_db)))) \<and>
   map (\<lambda>r. (pr_product_id r, pr_store_id r, pr_price r))
     (db_prices
        (fst (save_store_results arabic True (\<lambda>item. d_name item = str ''Tomato 1kg'') True
           [scraped_item ''Organic Cucumber'' (25 / 2) 1000,
            scraped_item ''Tomato 1kg'' 8 1000,
            scraped_item ''Cucumber 1kg'' 11 1000] store_S catalog_db))) =
     [(21, 7, 25 / 2), (23, 7, 11)] \<and>
   map p_id
     (db_products
        (fst (save_store_results arabic True (\<lambda>item. d_name item = str ''Tomato 1kg'') True
           [scraped_item ''Organic Cucumber'' (25 / 2) 1000,
            scraped_item ''Tomato 1kg'' 8 1000,
            scraped_item ''Cucumber 1kg'' 11 1000] store_S catalog_db))) =
     [10, 20, 21, 22, 23]"
proof -
  let ?c = "scraped_item ''Organic Cucumber'' (25 / 2) 1000"
  let ?t = "scraped_item ''Tomato 1kg'' 8 1000"
  let ?k = "scraped_item ''Cucumber 1kg'' 11 1000"
  let ?raises = "\<lambda>item. d_name item = str ''Tomato 1kg''"
  note t = failed_commit_rolls_back_whole_batch
      [where db = catalog_db and scraped_products = "[?c, ?t]" and recorded_at = "stamp 2000"
         and store_id = 7 and u = arabic and autoflush = True and raises = ?raises
         and store = store_S and item = ?c and xs = "[]" and ys = "[?t, ?k]"]
  from t have r: "process_scraped_data arabic True False (stamp 2000) catalog_db 7 [?c, ?t] =
      catalog_db"
    by blast
  note s = failed_commit_rolls_back_whole_batch
      [where db = catalog_db and scraped_products = "[?c, ?t, ?k]" and raises = ?raises
         and store = store_S and u = arabic and autoflush = True and item = ?c
         and xs = "[]" and ys = "[?t, ?k]" and recorded_at = "stamp 2000" and store_id = 7]
  have l: "length (filter (\<lambda>item. \<not> ?raises item) [?c, ?t, ?k]) = 2"
    by (simp add: scraped_item_def str_def)
  from s have "snd (save_store_results arabic True ?raises True [?c, ?t, ?k] store_S
      catalog_db) = length (filter (\<lambda>item. \<not> ?raises item) [?c, ?t, ?k])"
    by blast
  with l have n: "snd (save_store_results arabic True ?raises True [?c, ?t, ?k] store_S
      catalog_db) = 2"
    by (simp only:)
  have d: "distinct (map p_id (db_products catalog_db))"
    by (simp add: catalog_db_def cucumbers_def tomatoes_def)
  have nr: "\<not> ?raises ?c"
    by (simp add: scraped_item_def str_def)
  have later: "\<forall>y \<in> set [?t, ?k]. d_name y \<noteq> d_name ?c"
    by (simp add: scraped_item_def str_def)
  from s d nr later have w: "\<exists>product_id.
      new_price product_id (s_id store_S) ?c \<in>
        set (db_prices
          (fst (save_store_results arabic True ?raises True ([] @ ?c # [?t, ?k])
             store_S catalog_db)))"
    by blast
  have rows: "map (\<lambda>r. (pr_product_id r, pr_store_id r, pr_price r))
     (db_prices (fst (save_store_results arabic True ?raises True [?c, ?t, ?k] store_S
        catalog_db))) = [(21, 7, 25 / 2), (23, 7, 11)]"
    by (simp add: ledger_eval)
  have ps: "map p_id
     (db_products (fst (save_store_results arabic True ?raises True [?c, ?t, ?k] store_S
        catalog_db))) = [10, 20, 21, 22, 23]"
    by (simp add: ledger_eval)
  from r d n w rows ps show ?thesis
    by blast
qed

section \<open>The price change\<close>

lemma most_recent_None: "(most_recent hs = None) = (hs = [])"
  by (induction hs) (auto split: option.splits)

lemma no_previous_price:
  assumes "previous_price_query db (utcnow - timedelta_days 1) price = None"
  shows "format_price_with_change db utcnow price = 0"
    and "get_prices_test_no_auth_change db utcnow price = (0, 0)"
  using assms
  by (simp_all add: format_price_with_change_def get_prices_test_no_auth_change_def
      py_round2_def double_def round_half_even_def)

lemma previous_price_not_positive:
  assumes "previous_price_query db (utcnow - timedelta_days 1) price = Some prev"
    and "h_price prev \<le> 0"
  shows "format_price_with_change db utcnow price = 0"
    and "snd (get_prices_test_no_auth_change db utcnow price) = 0"
  using assms
  by (simp_all add: format_price_with_change_def get_prices_test_no_auth_change_def
      py_round2_def double_def round_half_even_def Let_def)

lemma previous_price_positive:
  assumes "previous_price_query db (utcnow - timedelta_days 1) price = Some prev"
    and "0 < h_price prev"
  shows "format_price_with_change db utcnow price =
      py_round2 (float_mul (float_div (float_sub (pr_price price) (h_price prev)) (h_price prev))
        100)"
    and "snd (get_prices_test_no_auth_change db utcnow price) =
      float_mul (float_div (float_sub (pr_price price) (h_price prev)) (h_price prev)) 100"
  using assms
  by (simp_all add: format_price_with_change_def get_prices_test_no_auth_change_def Let_def)

text \<open>
  Claim C4. The price change in percent is computed from the most recent history
  record of the pair that is older than a day and is rounded to two decimal places.
  \<open>PriceService._format_price_with_change\<close> does so. \<open>get_prices_test_no_auth\<close>,
  the second computation, makes the same query and the same float arithmetic and does
  not round: for the previous price 64, recorded 36 hours ago, and the current price
  65 it returns 1.5625, where \<open>PriceService\<close> returns 1.56 (the double nearest to
  it), which is what the claim says. On the examples of the claim the two agree: 25
  for the prices 20 and 25, and 0 without a record older than a day.
\<close>

theorem get_prices_test_no_auth_change_not_rounded:
  "map h_price (db_price_history (history_db 64)) = [64] \<and>
   map h_recorded_at (db_price_history (history_db 64)) = [200000000000 - 36 * 3600000000] \<and>
   pr_price (current_row 65) = 65 \<and>
   get_prices_test_no_auth_change (history_db 64) 200000000000 (current_row 65) =
     (1, 25 / 16) \<and>
   format_price_with_change (history_db 64) 200000000000 (current_row 65) = double (39 / 25) \<and>
   py_round2 (25 / 16) = double (39 / 25) \<and>
   double (39 / 25) = 3512807709348987 / 2251799813685248 \<and>
   25 / 16 \<noteq> double (39 / 25) \<and>
   get_prices_test_no_auth_change (history_db 20) 200000000000 (current_row 25) = (5, 25) \<and>
   format_price_with_change (history_db 20) 200000000000 (current_row 25) = 25 \<and>
   get_prices_test_no_auth_change catalog_db 200000000000 (current_row 25) = (0, 0) \<and>
   format_price_with_change catalog_db 200000000000 (current_row 25) = 0"
  by code_simp

section \<open>The batch scrape\<close>

lemma dict_set_map_of: "map_of (dict_set k v kvs) = (map_of kvs)(k \<mapsto> v)"
  by (induction kvs) (auto simp: fun_eq_iff)

lemma collect_results_other:
  "k \<notin> fst ` set results \<Longrightarrow> map_of (collect_results results acc) k = map_of acc k"
  by (induction results arbitrary: acc) (auto simp: dict_set_map_of)

lemma collect_results_lookup:
  "distinct (map fst results) \<Longrightarrow> (k, r) \<in> set results \<Longrightarrow>
   map_of (collect_results results acc) k = Some (case r of Inl e \<Rightarrow> [] | Inr x \<Rightarrow> x)"
proof (induction results arbitrary: acc)
  case Nil
  then show ?case by simp
next
  case (Cons entry rest)
  obtain k' r' where e: "entry = (k', r')" by (cases entry)
  show ?case
  proof (cases "(k, r) = (k', r')")
    case True
    with Cons.prems e have "k \<notin> fst ` set rest" by auto
    with True e show ?thesis
      by (simp add: collect_results_other dict_set_map_of)
  next
    case False
    with Cons.prems e have "(k, r) \<in> set rest" "distinct (map fst rest)" by auto
    with Cons.IH e show ?thesis by simp
  qed
qed

lemma dict_set_keys:
  "k \<notin> fst ` set kvs \<Longrightarrow> map fst (dict_set k v kvs) = map fst kvs @ [k]"
  by (induction kvs) auto

lemma collect_results_keys:
  "distinct (map fst acc @ map fst results) \<Longrightarrow>
   map fst (collect_results results acc) = map fst acc @ map fst results"
proof (induction results arbitrary: acc)
  case Nil
  then show ?case by simp
next
  case (Cons entry rest)
  obtain k r where e: "entry = (k, r)" by (cases entry)
  with Cons.prems have "k \<notin> fst ` set acc" by auto
  then have keys:
    "map fst (dict_set k (case r of Inl e \<Rightarrow> [] | Inr x \<Rightarrow> x) acc) = map fst acc @ [k]"
    by (simp add: dict_set_keys)
  from Cons.prems e
  have "distinct (map fst (dict_set k (case r of Inl e \<Rightarrow> [] | Inr x \<Rightarrow> x) acc) @ map fst rest)"
    unfolding keys by simp
  from Cons.IH [OF this] keys e show ?case by simp
qed

lemma dict_set_first:
  "dict_set k v kvs \<noteq> [] \<and> (kvs \<noteq> [] \<longrightarrow> fst (hd (dict_set k v kvs)) = fst (hd kvs))"
  by (cases kvs) (auto split: if_splits)

lemma collect_results_first_acc:
  "acc \<noteq> [] \<Longrightarrow>
   collect_results results acc \<noteq> [] \<and> fst (hd (collect_results results acc)) = fst (hd acc)"
proof (induction results arbitrary: acc)
  case Nil
  then show ?case by simp
next
  case (Cons entry rest)
  obtain k r where e: "entry = (k, r)" by (cases entry)
  let ?acc = "dict_set k (case r of Inl e \<Rightarrow> [] | Inr x \<Rightarrow> x) acc"
  from dict_set_first [of k _ acc] Cons.prems
  have "?acc \<noteq> []" "fst (hd ?acc) = fst (hd acc)"
    by simp_all
  with Cons.IH [of ?acc] e show ?case
    by simp
qed

lemma collect_results_first:
  assumes "results \<noteq> []"
  shows "collect_results results [] \<noteq> [] \<and>
         fst (hd (collect_results results [])) = fst (hd results)"
proof -
  from assms obtain k r rest where e: "results = (k, r) # rest"
    by (cases results) auto
  let ?acc = "[(k, case r of Inl e \<Rightarrow> [] | Inr x \<Rightarrow> x)]"
  have "collect_results rest ?acc \<noteq> [] \<and>
      fst (hd (collect_results rest ?acc)) = fst (hd ?acc)"
    by (rule collect_results_first_acc) simp
  with e show ?thesis
    by simp
qed

lemma create_tasks_eq:
  "create_tasks scrapers env (filter s_is_active stores) =
   map (\<lambda>store. (s_name store,
          scrape_store_safe (the (scraper_for scrapers store)) (e_utcnow env store) store))
     (filter (\<lambda>store. s_is_active store \<and> scraper_for scrapers store \<noteq> None) stores)"
  by (induction stores) (auto simp: create_tasks_def List.map_filter_simps)

lemma scrape_store_safe_products:
  "snd (scrape_store_safe scraper_class utcnow store) =
     (case scraper_class store of Inl e \<Rightarrow> [] | Inr products \<Rightarrow> products)"
  by (simp add: scrape_store_safe_def Let_def split: sum.splits)

lemma scrape_store_safe_status:
  "s_status (fst (scrape_store_safe scraper_class utcnow store)) =
     (case scraper_class store of Inl e \<Rightarrow> str ''offline'' | Inr products \<Rightarrow> str ''idle'')"
  by (simp add: scrape_store_safe_def Let_def split: sum.splits)

lemma scrape_store_safe_name:
  "s_name (fst (scrape_store_safe scraper_class utcnow store)) = s_name store"
  by (simp add: scrape_store_safe_def Let_def split: sum.splits)

lemma store_after_name: "s_name (store_after scrapers env store) = s_name store"
  by (simp add: store_after_def scrape_store_safe_name split: option.splits)

lemma attempted_eq:
  "attempted scrapers db =
   filter (\<lambda>store. s_is_active store \<and> scraper_for scrapers store \<noteq> None) (db_stores db)"
  unfolding attempted_def by (rule filter_cong) (auto split: option.splits)

lemma attempted_active:
  "filter s_is_active (db_stores db) = [] \<Longrightarrow> attempted scrapers db = []"
  by (auto simp: attempted_eq filter_empty_conv)

text \<open>The dictionary that the tasks of a batch leave.\<close>

lemma all_results_eq:
  "collect_results
     (map (\<lambda>(store_name, store', products). (store_name, Inr products))
        (create_tasks scrapers env (filter s_is_active (db_stores db)))) [] =
   collect_results
     (map (\<lambda>store. (s_name store,
             Inr (case the (scraper_for scrapers store) store of
                    Inl e \<Rightarrow> [] | Inr products \<Rightarrow> products)))
        (attempted scrapers db)) []"
  by (simp add: create_tasks_eq attempted_eq scrape_store_safe_products split_def comp_def)

lemma scrape_all_stores_results:
  "fst (scrape_all_stores scrapers env db) =
   collect_results
     (map (\<lambda>store. (s_name store,
             Inr (case the (scraper_for scrapers store) store of
                    Inl e \<Rightarrow> [] | Inr products \<Rightarrow> products)))
        (attempted scrapers db)) []"
proof (cases "filter s_is_active (db_stores db) = []")
  case True
  then show ?thesis
    by (simp add: scrape_all_stores_def attempted_active)
next
  case False
  then show ?thesis
    using all_results_eq [of scrapers env db]
    by (simp add: scrape_all_stores_def Let_def)
qed

lemma attempted_result:
  assumes "distinct (map s_name (attempted scrapers db))"
    and "store \<in> set (attempted scrapers db)"
  shows "map_of (fst (scrape_all_stores scrapers env db)) (s_name store) =
     Some (case the (scraper_for scrapers store) store of Inl e \<Rightarrow> [] | Inr products \<Rightarrow> products)"
proof -
  let ?results = "map (\<lambda>store. (s_name store,
             Inr (case the (scraper_for scrapers store) store of
                    Inl e \<Rightarrow> [] | Inr products \<Rightarrow> products) :: exn + product_data list))
        (attempted scrapers db)"
  have d: "distinct (map fst ?results)"
    using assms(1) by (simp add: comp_def)
  have m: "(s_name store, Inr (case the (scraper_for scrapers store) store of
                    Inl e \<Rightarrow> [] | Inr products \<Rightarrow> products)) \<in> set ?results"
    using assms(2) by auto
  from collect_results_lookup [OF d m] show ?thesis
    by (simp add: scrape_all_stores_results)
qed

lemma attempted_keys:
  assumes "distinct (map s_name (attempted scrapers db))"
  shows "map fst (fst (scrape_all_stores scrapers env db)) = map s_name (attempted scrapers db)"
  using collect_results_keys [of "[]" "map (\<lambda>store. (s_name store,
             Inr (case the (scraper_for scrapers store) store of
                    Inl e \<Rightarrow> [] | Inr products \<Rightarrow> products) :: exn + product_data list))
        (attempted scrapers db)"] assms
  by (simp add: scrape_all_stores_results comp_def)

lemma attempted_status:
  assumes "store \<in> set (attempted scrapers db)"
  shows "s_status (store_after scrapers env store) =
     (case the (scraper_for scrapers store) store of
        Inl e \<Rightarrow> str ''offline'' | Inr products \<Rightarrow> str ''idle'')"
  using assms
  by (auto simp: attempted_def store_after_def scrape_store_safe_status split: option.splits)

lemma attempted_outcome:
  "store \<in> set (attempted scrapers db) \<Longrightarrow>
   adapter_outcome scrapers store = Some (the (scraper_for scrapers store) store)"
  by (auto simp: attempted_def adapter_outcome_def split: option.splits)

lemma result_after_batch:
  assumes "distinct (map s_name (attempted scrapers db))"
    and "store \<in> set (attempted scrapers db)"
  shows "map_of (fst (scrape_all_stores scrapers env db)) (s_name store) =
     (case adapter_outcome scrapers store of
        Some (Inl e) \<Rightarrow> Some [] | Some (Inr products) \<Rightarrow> Some products | None \<Rightarrow> None)"
  using attempted_result [OF assms, of env] attempted_outcome [OF assms(2)]
  by (simp split: sum.splits)

section \<open>What the session of a batch commits\<close>

lemma save_store_session_stores:
  "db_stores (se_committed (fst (save_store_session u autoflush raises commit_ok products store se))) =
     (if commit_ok then db_stores (fst (se_work se)) else db_stores (se_committed se)) \<and>
   db_stores (fst (se_work (fst (save_store_session u autoflush raises commit_ok products store se)))) =
     (if commit_ok then db_stores (fst (se_work se)) else db_stores (se_committed se))"
proof -
  obtain w n where l: "save_loop u autoflush raises store products (se_work se) 0 = (w, n)"
    by (cases "save_loop u autoflush raises store products (se_work se) 0")
  then have "db_stores (fst w) = db_stores (fst (se_work se))"
    using save_loop_stores [of u autoflush raises store products "se_work se" 0] by simp
  with l show ?thesis
    by (simp add: save_store_session_def commit_def rollback_def db_stores_flush)
qed

lemma save_all_results_stable:
  "db_stores (fst (se_work se)) = db_stores (se_committed se) \<Longrightarrow>
   db_stores (se_committed (fst (save_all_results env all_results se total_saved))) =
   db_stores (se_committed se)"
proof (induction all_results arbitrary: se total_saved)
  case Nil
  then show ?case by simp
next
  case (Cons entry rest)
  obtain store_name products where e: "entry = (store_name, products)"
    by (cases entry)
  show ?case
  proof (cases "List.find (\<lambda>s. s_name s = store_name) (db_stores (fst (se_work se)))")
    case None
    with e Cons show ?thesis by simp
  next
    case (Some store)
    obtain se' saved where s:
      "save_store_session (e_unicode env) (e_autoflush env) (e_item_raises env)
         (e_commit_ok env store_name) products store se = (se', saved)"
      by (cases "save_store_session (e_unicode env) (e_autoflush env) (e_item_raises env)
         (e_commit_ok env store_name) products store se")
    with save_store_session_stores [of "e_unicode env" "e_autoflush env" "e_item_raises env"
        "e_commit_ok env store_name" products store se] Cons.prems
    have "db_stores (se_committed se') = db_stores (se_committed se)"
      "db_stores (fst (se_work se')) = db_stores (se_committed se')"
      by simp_all
    with e Some s Cons.IH [of se'] show ?thesis by simp
  qed
qed

lemma save_all_results_first:
  assumes "List.find (\<lambda>s. s_name s = store_name) (db_stores (fst (se_work se))) = Some store"
  shows "db_stores (se_committed
           (fst (save_all_results env ((store_name, products) # rest) se total_saved))) =
     (if e_commit_ok env store_name then db_stores (fst (se_work se))
      else db_stores (se_committed se))"
proof -
  obtain se' saved where s:
    "save_store_session (e_unicode env) (e_autoflush env) (e_item_raises env)
       (e_commit_ok env store_name) products store se = (se', saved)"
    by (cases "save_store_session (e_unicode env) (e_autoflush env) (e_item_raises env)
       (e_commit_ok env store_name) products store se")
  with save_store_session_stores [of "e_unicode env" "e_autoflush env" "e_item_raises env"
      "e_commit_ok env store_name" products store se]
  have c: "db_stores (se_committed se') =
      (if e_commit_ok env store_name then db_stores (fst (se_work se))
       else db_stores (se_committed se))"
    and "db_stores (fst (se_work se')) = db_stores (se_committed se')"
    by simp_all
  then have "db_stores (se_committed (fst (save_all_results env rest se' (total_saved + saved)))) =
      db_stores (se_committed se')"
    by (intro save_all_results_stable)
  with assms s c show ?thesis
    by simp
qed

lemma scrape_all_stores_stores:
  assumes "attempted scrapers db \<noteq> []"
  shows "db_stores (snd (scrape_all_stores scrapers env db)) =
     (if e_commit_ok env (s_name (hd (attempted scrapers db)))
      then map (store_after scrapers env) (db_stores db) else db_stores db)"
proof -
  let ?first = "hd (attempted scrapers db)"
  let ?results = "map (\<lambda>store. (s_name store,
             Inr (case the (scraper_for scrapers store) store of
                    Inl e \<Rightarrow> [] | Inr products \<Rightarrow> products) :: exn + product_data list))
        (attempted scrapers db)"
  let ?all = "collect_results ?results []"
  let ?se = "\<lparr>se_committed = db,
      se_work = (db\<lparr>db_stores := map (store_after scrapers env) (db_stores db)\<rparr>, [])\<rparr>"
  from assms have active: "filter s_is_active (db_stores db) \<noteq> []"
    using attempted_active [of db scrapers] by blast
  from assms have "?results \<noteq> []"
    by simp
  from collect_results_first [OF this] assms
  have ne: "?all \<noteq> []" and k: "fst (hd ?all) = s_name ?first"
    by (simp_all add: hd_map)
  then obtain products rest where a: "?all = (s_name ?first, products) # rest"
    by (cases ?all) auto
  from assms have "?first \<in> set (attempted scrapers db)"
    by simp
  then have "?first \<in> set (db_stores db)"
    by (simp add: attempted_def)
  then have "store_after scrapers env ?first \<in> set (db_stores (fst (se_work ?se)))"
    by simp
  then have "List.find (\<lambda>s. s_name s = s_name ?first) (db_stores (fst (se_work ?se))) \<noteq> None"
    unfolding find_None_iff using store_after_name [of scrapers env ?first] by blast
  then obtain store where
    f: "List.find (\<lambda>s. s_name s = s_name ?first) (db_stores (fst (se_work ?se))) = Some store"
    by auto
  have "db_stores (se_committed (fst (save_all_results env ?all ?se 0))) =
     (if e_commit_ok env (s_name ?first) then db_stores (fst (se_work ?se))
      else db_stores (se_committed ?se))"
    unfolding a by (rule save_all_results_first [OF f])
  with active show ?thesis
    using all_results_eq [of scrapers env db]
    by (simp add: scrape_all_stores_def Let_def)
qed

lemma status_after_batch:
  assumes "i < length (db_stores db)" and "db_stores db ! i \<in> set (attempted scrapers db)"
    and "e_commit_ok env (s_name (hd (attempted scrapers db)))"
  shows "s_status (db_stores (snd (scrape_all_stores scrapers env db)) ! i) =
     (case adapter_outcome scrapers (db_stores db ! i) of
        Some (Inl e) \<Rightarrow> str ''offline'' | Some (Inr products) \<Rightarrow> str ''idle'' | None \<Rightarrow> [])"
proof -
  from assms(2) have "attempted scrapers db \<noteq> []"
    by auto
  from scrape_all_stores_stores [OF this, of env] assms(3)
  have "db_stores (snd (scrape_all_stores scrapers env db)) =
      map (store_after scrapers env) (db_stores db)"
    by simp
  with assms(1) attempted_status [OF assms(2), of env] attempted_outcome [OF assms(2)]
  show ?thesis
    by (simp split: sum.splits)
qed

lemmas batch_eval =
  scrape_all_stores_def create_tasks_def List.map_filter_simps scraper_for_def
  scrape_store_safe_def store_after_def attempted_def adapter_outcome_def
  scrapers_S_raises_def scrapers_S_empty_def two_stores_db_def same_name_db_def
  store_S_def store_T_def store_S2_def calm_def failing_def
  save_store_session_def commit_def rollback_def flush_def add_price_def delete_pair_def
  find_or_create_product_def created_product_def fresh_product_id_def new_price_def
  float_or_none_def scraped_item_def cucumbers_def tomatoes_def
  str_def lower_def ascii_lower_def arabic_def Let_def

text \<open>
  Claim C1, as stated, fails.

  The dictionary is keyed by the name of the store: of two attempted stores of the name
  "S", the first with a scraper that returns an item and the second with the one
  scraper of the batch that raises, the dictionary has the one entry of the second, the
  empty list, and the list of the first is lost.

  The status: \<open>_scrape_store_safe\<close> assigns "offline" to the store object of the
  batch's session and commits another, empty session. When the commit of the first save
  fails, the rollback of the batch's session undoes the assignment, and the store whose
  scraper raised has the status "idle" after the batch.
\<close>

theorem scrape_all_stores_loses_results_and_status_counterexample:
  "attempted scrapers_S_raises same_name_db = [store_S2, store_S] \<and>
   adapter_outcome scrapers_S_raises store_S = Some (Inl (Exception ''timeout'')) \<and>
   adapter_outcome scrapers_S_raises store_S2 =
     Some (Inr [scraped_item ''Tomato 1kg'' 8 1000]) \<and>
   fst (scrape_all_stores scrapers_S_raises calm same_name_db) = [(str ''S'', [])] \<and>
   attempted scrapers_S_raises two_stores_db = [store_S, store_T] \<and>
   adapter_outcome scrapers_S_raises store_T =
     Some (Inr [scraped_item ''Tomato 1kg'' 8 1000]) \<and>
   map s_status (db_stores (snd (scrape_all_stores scrapers_S_raises failing two_stores_db))) =
     [str ''idle'', str ''idle'']"
  by (simp add: batch_eval)


text \<open>
  Claim C1, amended. In a batch whose attempted stores have distinct names and in which
  the adapter of exactly one of them raises, \<open>scrape_all_stores\<close> returns for every
  other attempted store the list its adapter returned, under the store's name (the
  dictionary has one entry for each attempted store, in their order), and
  the status of the store whose adapter raised is "offline" in the database after the
  batch when the commit of the first save, that of the first attempted store, succeeds.
\<close>

theorem scrape_all_stores_isolates_failure:
  assumes "distinct (map s_name (attempted scrapers db))"
    and "failed \<in> set (attempted scrapers db)"
    and "adapter_outcome scrapers failed = Some (Inl e)"
    and "\<forall>store \<in> set (attempted scrapers db). store \<noteq> failed \<longrightarrow>
           (\<exists>products. adapter_outcome scrapers store = Some (Inr products))"
  shows "(\<forall>store \<in> set (attempted scrapers db). store \<noteq> failed \<longrightarrow>
            map_option Inr (map_of (fst (scrape_all_stores scrapers env db)) (s_name store)) =
            adapter_outcome scrapers store) \<and>
         map fst (fst (scrape_all_stores scrapers env db)) =
           map s_name (attempted scrapers db) \<and>
         (e_commit_ok env (s_name (hd (attempted scrapers db))) \<longrightarrow>
            (\<forall>i < length (db_stores db). db_stores db ! i = failed \<longrightarrow>
               s_status (db_stores (snd (scrape_all_stores scrapers env db)) ! i) =
               str ''offline''))"
proof (intro conjI ballI allI impI)
  fix store
  assume s: "store \<in> set (attempted scrapers db)" and "store \<noteq> failed"
  with assms(4) obtain products where p: "adapter_outcome scrapers store = Some (Inr products)"
    by blast
  with result_after_batch [OF assms(1) s, of env]
  show "map_option Inr (map_of (fst (scrape_all_stores scrapers env db)) (s_name store)) =
            adapter_outcome scrapers store"
    by simp
next
  show "map fst (fst (scrape_all_stores scrapers env db)) = map s_name (attempted scrapers db)"
    by (rule attempted_keys [OF assms(1)])
next
  fix i
  assume "e_commit_ok env (s_name (hd (attempted scrapers db)))"
    and "i < length (db_stores db)" and "db_stores db ! i = failed"
  with status_after_batch [of i db scrapers env] assms(2,3)
  show "s_status (db_stores (snd (scrape_all_stores scrapers env db)) ! i) = str ''offline''"
    by simp
qed

text \<open>
  The batch over the stores S and T in which the scraper of S raises, every commit
  succeeding: T has its item, and S is "offline" after the batch.
\<close>

theorem scrape_all_stores_isolates_failure_witness:
  "attempted scrapers_S_raises two_stores_db = [store_S, store_T] \<and>
   distinct (map s_name (attempted scrapers_S_raises two_stores_db)) \<and>
   adapter_outcome scrapers_S_raises store_S = Some (Inl (Exception ''timeout'')) \<and>
   adapter_outcome scrapers_S_raises store_T = Some (Inr [scraped_item ''Tomato 1kg'' 8 1000]) \<and>
   e_commit_ok calm (s_name (hd (attempted scrapers_S_raises two_stores_db))) \<and>
   map_of (fst (scrape_all_stores scrapers_S_raises calm two_stores_db)) (s_name store_T) =
     Some [scraped_item ''Tomato 1kg'' 8 1000] \<and>
   s_status (db_stores (snd (scrape_all_stores scrapers_S_raises calm two_stores_db)) ! 0) =
     str ''offline''"
proof -
  have att: "attempted scrapers_S_raises two_stores_db = [store_S, store_T]"
    by (simp add: batch_eval)
  have d: "distinct (map s_name (attempted scrapers_S_raises two_stores_db))"
    unfolding att by (simp add: store_S_def store_T_def str_def)
  have f: "adapter_outcome scrapers_S_raises store_S = Some (Inl (Exception ''timeout''))"
    by (simp add: batch_eval)
  have t: "adapter_outcome scrapers_S_raises store_T =
      Some (Inr [scraped_item ''Tomato 1kg'' 8 1000])"
    by (simp add: batch_eval)
  have ne: "store_T \<noteq> store_S"
    by (simp add: store_S_def store_T_def)
  have m: "store_S \<in> set (attempted scrapers_S_raises two_stores_db)"
    "store_T \<in> set (attempted scrapers_S_raises two_stores_db)"
    by (simp_all add: att)
  have o: "\<forall>store \<in> set (attempted scrapers_S_raises two_stores_db). store \<noteq> store_S \<longrightarrow>
      (\<exists>products. adapter_outcome scrapers_S_raises store = Some (Inr products))"
    using t by (simp add: att)
  have c: "e_commit_ok calm (s_name (hd (attempted scrapers_S_raises two_stores_db)))"
    by (simp add: calm_def)
  have i: "0 < length (db_stores two_stores_db)" "db_stores two_stores_db ! 0 = store_S"
    by (simp_all add: two_stores_db_def)
  note r = scrape_all_stores_isolates_failure [OF d m(1) f o, of calm]
  from r m(2) ne
  have "map_option Inr
      (map_of (fst (scrape_all_stores scrapers_S_raises calm two_stores_db)) (s_name store_T)) =
      adapter_outcome scrapers_S_raises store_T"
    by blast
  with t have l: "map_of (fst (scrape_all_stores scrapers_S_raises calm two_stores_db))
      (s_name store_T) = Some [scraped_item ''Tomato 1kg'' 8 1000]"
    by (cases "map_of (fst (scrape_all_stores scrapers_S_raises calm two_stores_db))
      (s_name store_T)") auto
  from r c i
  have "s_status (db_stores (snd (scrape_all_stores scrapers_S_raises calm two_stores_db)) ! 0) =
     str ''offline''"
    by blast
  with att d f t c l show ?thesis
    by blast
qed

text \<open>
  Claim C9, as stated, fails: the dictionary that \<open>scrape_all_stores\<close> returns holds
  the empty list for a store whose adapter raised, which is what it holds for a store
  whose adapter returned no item. The batch in which the scraper of S raises and the
  batch in which it returns the empty list give the same dictionary.
\<close>

theorem failed_store_reported_as_empty_counterexample:
  "adapter_outcome scrapers_S_raises store_S = Some (Inl (Exception ''timeout'')) \<and>
   adapter_outcome scrapers_S_empty store_S = Some (Inr []) \<and>
   fst (scrape_all_stores scrapers_S_raises calm two_stores_db) =
   fst (scrape_all_stores scrapers_S_empty calm two_stores_db) \<and>
   map_of (fst (scrape_all_stores scrapers_S_raises calm two_stores_db)) (str ''S'') = Some []"
  by (simp add: batch_eval)

text \<open>
  Claim C9, amended. In the dictionary returned by \<open>scrape_all_stores\<close>, for a batch
  whose attempted stores have distinct names, a store whose adapter raised has the empty
  list, the entry of a scrape that found no item; a store whose adapter returned a list
  has that list. The dictionary has no failure marker. The failure shows in the status
  of the store only, in the database after the batch when the commit of the first save
  succeeds: "offline" after a failure, "idle" after a scrape that returned, with or
  without items.
\<close>

theorem failed_store_has_empty_list_and_offline_status:
  assumes "distinct (map s_name (attempted scrapers db))"
    and "i < length (db_stores db)"
    and "db_stores db ! i \<in> set (attempted scrapers db)"
  shows "(\<forall>e. adapter_outcome scrapers (db_stores db ! i) = Some (Inl e) \<longrightarrow>
            map_of (fst (scrape_all_stores scrapers env db)) (s_name (db_stores db ! i)) =
              Some [] \<and>
            (e_commit_ok env (s_name (hd (attempted scrapers db))) \<longrightarrow>
               s_status (db_stores (snd (scrape_all_stores scrapers env db)) ! i) =
               str ''offline'')) \<and>
         (\<forall>products. adapter_outcome scrapers (db_stores db ! i) = Some (Inr products) \<longrightarrow>
            map_of (fst (scrape_all_stores scrapers env db)) (s_name (db_stores db ! i)) =
              Some products \<and>
            (e_commit_ok env (s_name (hd (attempted scrapers db))) \<longrightarrow>
               s_status (db_stores (snd (scrape_all_stores scrapers env db)) ! i) =
               str ''idle''))"
  using result_after_batch [OF assms(1,3), of env] status_after_batch [OF assms(2,3), of env]
  by simp

text \<open>
  The batch in which the scraper of S returns no item, every commit succeeding: the
  entry of S is the empty list and S is "idle" after the batch.
\<close>

theorem failed_store_has_empty_list_and_offline_status_witness:
  "attempted scrapers_S_empty two_stores_db = [store_S, store_T] \<and>
   distinct (map s_name (attempted scrapers_S_empty two_stores_db)) \<and>
   adapter_outcome scrapers_S_empty store_S = Some (Inr []) \<and>
   e_commit_ok calm (s_name (hd (attempted scrapers_S_empty two_stores_db))) \<and>
   map_of (fst (scrape_all_stores scrapers_S_empty calm two_stores_db))
     (s_name (db_stores two_stores_db ! 0)) = Some [] \<and>
   s_status (db_stores (snd (scrape_all_stores scrapers_S_empty calm two_stores_db)) ! 0) =
     str ''idle''"
proof -
  have att: "attempted scrapers_S_empty two_stores_db = [store_S, store_T]"
    by (simp add: batch_eval)
  have d: "distinct (map s_name (attempted scrapers_S_empty two_stores_db))"
    unfolding att by (simp add: store_S_def store_T_def str_def)
  have i: "0 < length (db_stores two_stores_db)"
    by (simp add: two_stores_db_def)
  have s: "db_stores two_stores_db ! 0 = store_S"
    by (simp add: two_stores_db_def)
  have m: "db_stores two_stores_db ! 0 \<in> set (attempted scrapers_S_empty two_stores_db)"
    by (simp add: att s)
  have o: "adapter_outcome scrapers_S_empty (db_stores two_stores_db ! 0) = Some (Inr [])"
    unfolding s by (simp add: batch_eval)
  have c: "e_commit_ok calm (s_name (hd (attempted scrapers_S_empty two_stores_db)))"
    by (simp add: calm_def)
  from failed_store_has_empty_list_and_offline_status [OF d i m, of calm] o c
  have "map_of (fst (scrape_all_stores scrapers_S_empty calm two_stores_db))
     (s_name (db_stores two_stores_db ! 0)) = Some [] \<and>
   s_status (db_stores (snd (scrape_all_stores scrapers_S_empty calm two_stores_db)) ! 0) =
     str ''idle''"
    by blast
  with att d o s c show ?thesis
    by simp
qed

end
